theory Spec2Isabelle
  imports Complex_Main "HOL-Library.Char_ord" "HOL-Library.List_Lexorder"
begin

section \<open>Soil-sensor dashboard: normalisation and temporal aggregation\<close>

text \<open>
  The development embeds the two computations of the component \<open>App\<close>: the mapping of
  parsed CSV rows to \<open>SensorData\<close> records inside \<open>handleFileUpload\<close>, and the memoised
  value \<open>filteredAndAggregatedData\<close>. Both call the JavaScript built-ins \<open>Date\<close>,
  \<open>parseFloat\<close> and \<open>toFixed\<close> and the library date-fns (major version 3 or 4, where
  \<open>isWithinInterval\<close> orders the ends of its interval); these are modelled below after
  ECMA-262 and the library's sources.

  Conventions of the model.
  \<^item> A JavaScript string is a \<open>string\<close>; only equality, concatenation, ASCII syntax and
    the code-unit order are used.
  \<^item> A \<open>Date\<close> is its time value: \<open>Some t\<close> with \<open>t\<close> milliseconds since the epoch, or
    \<open>None\<close> for an Invalid Date (time value NaN).
  \<^item> The local time zone is given by its offset from UTC in milliseconds, as a function
    of the UTC time value and as a function of the local time value (the \<open>LocalTZA\<close> of
    ECMA-262 with its flag true and false).
  \<^item> A number is finite, infinite or NaN. Finite arithmetic is exact over the rationals:
    the rounding and the overflow of IEEE doubles are outside the model, and the two
    zeros are identified.
  \<^item> What \<open>new Date(string)\<close> returns for a string outside the two ISO shapes handled
    here is implementation-defined in ECMA-262; it is the parameter \<open>legacyParse\<close>.
\<close>

subsection \<open>Numbers\<close>

datatype jsnum = Fin rat | PInf | NInf | NaN

fun num_add :: "jsnum \<Rightarrow> jsnum \<Rightarrow> jsnum" where
  "num_add NaN _ = NaN"
| "num_add _ NaN = NaN"
| "num_add (Fin a) (Fin b) = Fin (a + b)"
| "num_add PInf NInf = NaN"
| "num_add NInf PInf = NaN"
| "num_add PInf _ = PInf"
| "num_add _ PInf = PInf"
| "num_add NInf _ = NInf"
| "num_add _ NInf = NInf"

text \<open>\<open>x / count\<close>, where \<open>count\<close> is a counter that starts at 0 and is incremented by 1.\<close>

fun num_div :: "jsnum \<Rightarrow> nat \<Rightarrow> jsnum" where
  "num_div NaN _ = NaN"
| "num_div PInf _ = PInf"
| "num_div NInf _ = NInf"
| "num_div (Fin a) n =
     (if n = 0 then (if a = 0 then NaN else if 0 < a then PInf else NInf)
      else Fin (a / of_nat n))"

definition isFinite :: "jsnum \<Rightarrow> bool" where
  "isFinite x = (case x of Fin _ \<Rightarrow> True | _ \<Rightarrow> False)"

text \<open>
  \<open>Number(x.toFixed(2))\<close>. \<open>toFixed\<close> prints a non-finite number and a number of
  magnitude at least \<open>10^21\<close> as \<open>ToString\<close> does, which \<open>Number\<close> reads back unchanged;
  otherwise it picks the integer \<open>n\<close> with \<open>n / 100\<close> nearest to the magnitude, the larger
  one of two.
\<close>

definition round2 :: "rat \<Rightarrow> rat" where
  "round2 a = sgn a * of_int \<lfloor>\<bar>a\<bar> * 100 + 1 / 2\<rfloor> / 100"

fun Number_toFixed2 :: "jsnum \<Rightarrow> jsnum" where
  "Number_toFixed2 (Fin a) = (if 10 ^ 21 \<le> \<bar>a\<bar> then Fin a else Fin (round2 a))"
| "Number_toFixed2 x = x"

text \<open>\<open>x || 0\<close> for a number \<open>x\<close>: NaN and zero are falsy.\<close>

definition num_or_0 :: "jsnum \<Rightarrow> jsnum" where
  "num_or_0 x = (if x = NaN \<or> x = Fin 0 then Fin 0 else x)"

text \<open>\<open>s || d\<close> for an optional string \<open>s\<close>: \<open>undefined\<close> and the empty string are falsy.\<close>

definition str_or :: "string option \<Rightarrow> string \<Rightarrow> string" where
  "str_or s d = (case s of None \<Rightarrow> d | Some v \<Rightarrow> if v = [] then d else v)"

subsection \<open>Decimal digits\<close>

definition is_digit :: "char \<Rightarrow> bool" where
  "is_digit c = (c \<in> set ''0123456789'')"

definition digit_val :: "char \<Rightarrow> nat" where
  "digit_val c = (of_char c :: nat) - 48"

fun digits_val :: "nat \<Rightarrow> string \<Rightarrow> nat" where
  "digits_val acc [] = acc"
| "digits_val acc (c # cs) = digits_val (acc * 10 + digit_val c) cs"

definition all_digits :: "string \<Rightarrow> bool" where
  "all_digits s = list_all is_digit s"

definition digit_char :: "nat \<Rightarrow> char" where
  "digit_char n = ''0123456789'' ! (n mod 10)"

fun show_nat :: "nat \<Rightarrow> string" where
  "show_nat n = (if n < 10 then [digit_char n] else show_nat (n div 10) @ [digit_char n])"

declare show_nat.simps [simp del]

text \<open>date-fns \<open>addLeadingZeros\<close> on a non-negative number.\<close>

definition addLeadingZeros :: "nat \<Rightarrow> nat \<Rightarrow> string" where
  "addLeadingZeros n targetLength =
     (let s = show_nat n in replicate (targetLength - length s) (CHR ''0'') @ s)"

subsection \<open>Time values (ECMA-262, section 21.4.1)\<close>

definition msPerDay :: int where "msPerDay = 86400000"
definition msPerHour :: int where "msPerHour = 3600000"
definition msPerMinute :: int where "msPerMinute = 60000"

definition Day :: "int \<Rightarrow> int" where "Day t = t div msPerDay"
definition TimeWithinDay :: "int \<Rightarrow> int" where "TimeWithinDay t = t mod msPerDay"

definition DayFromYear :: "int \<Rightarrow> int" where
  "DayFromYear y =
     365 * (y - 1970) + (y - 1969) div 4 - (y - 1901) div 100 + (y - 1601) div 400"

definition InLeapYear :: "int \<Rightarrow> bool" where
  "InLeapYear y = (y mod 4 = 0 \<and> (y mod 100 \<noteq> 0 \<or> y mod 400 = 0))"

text \<open>
  The year of a day number: the largest \<open>y\<close> with \<open>DayFromYear y \<le> d\<close>. It is computed
  from an estimate that is off by one at most (lemma \<open>YearFromDay_bounds\<close>).
\<close>

definition YearFromDay :: "int \<Rightarrow> int" where
  "YearFromDay d =
     (let y = 1970 + (400 * d) div 146097 in
      if DayFromYear (y + 1) \<le> d then y + 1
      else if DayFromYear y \<le> d then y
      else y - 1)"

definition YearFromTime :: "int \<Rightarrow> int" where
  "YearFromTime t = YearFromDay (Day t)"

definition DayWithinYear :: "int \<Rightarrow> int" where
  "DayWithinYear t = Day t - DayFromYear (YearFromTime t)"

text \<open>Day number within the year on which month \<open>m\<close> (0 to 11) starts; 12 closes the year.\<close>

definition monthStart :: "bool \<Rightarrow> int \<Rightarrow> int" where
  "monthStart leap m =
     [0, 31, 59, 90, 120, 151, 181, 212, 243, 273, 304, 334, 365] ! nat m
       + (if leap \<and> 2 \<le> m then 1 else 0)"

definition MonthFromTime :: "int \<Rightarrow> int" where
  "MonthFromTime t =
     (let d = DayWithinYear t; l = InLeapYear (YearFromTime t) in
      if d < monthStart l 1 then 0
      else if d < monthStart l 2 then 1
      else if d < monthStart l 3 then 2
      else if d < monthStart l 4 then 3
      else if d < monthStart l 5 then 4
      else if d < monthStart l 6 then 5
      else if d < monthStart l 7 then 6
      else if d < monthStart l 8 then 7
      else if d < monthStart l 9 then 8
      else if d < monthStart l 10 then 9
      else if d < monthStart l 11 then 10
      else 11)"

definition DateFromTime :: "int \<Rightarrow> int" where
  "DateFromTime t =
     DayWithinYear t - monthStart (InLeapYear (YearFromTime t)) (MonthFromTime t) + 1"

definition WeekDay :: "int \<Rightarrow> int" where
  "WeekDay t = (Day t + 4) mod 7"

definition HourFromTime :: "int \<Rightarrow> int" where
  "HourFromTime t = (t div msPerHour) mod 24"

definition MinFromTime :: "int \<Rightarrow> int" where
  "MinFromTime t = (t div msPerMinute) mod 60"

definition SecFromTime :: "int \<Rightarrow> int" where
  "SecFromTime t = (t div 1000) mod 60"

definition msFromTime :: "int \<Rightarrow> int" where
  "msFromTime t = t mod 1000"

definition MakeTime :: "int \<Rightarrow> int \<Rightarrow> int \<Rightarrow> int \<Rightarrow> int" where
  "MakeTime h m s ms = h * msPerHour + m * msPerMinute + s * 1000 + ms"

definition MakeDay :: "int \<Rightarrow> int \<Rightarrow> int \<Rightarrow> int" where
  "MakeDay year month date =
     (let ym = year + month div 12; mn = month mod 12 in
      DayFromYear ym + monthStart (InLeapYear ym) mn + date - 1)"

definition MakeDate :: "int \<Rightarrow> int \<Rightarrow> int" where
  "MakeDate day time = day * msPerDay + time"

definition TimeClip :: "int \<Rightarrow> int option" where
  "TimeClip t = (if 8640000000000000 < \<bar>t\<bar> then None else Some t)"

subsection \<open>The platform: time zone and \<open>Date\<close> parsing\<close>

record platform =
  LocalTZA_utc :: "int \<Rightarrow> int"
  LocalTZA_local :: "int \<Rightarrow> int"
  legacyParse :: "string \<Rightarrow> int option"

definition LocalTime :: "platform \<Rightarrow> int \<Rightarrow> int" where
  "LocalTime pf t = t + LocalTZA_utc pf t"

definition UTC :: "platform \<Rightarrow> int \<Rightarrow> int" where
  "UTC pf t = t - LocalTZA_local pf t"

definition DaysInMonth :: "int \<Rightarrow> int \<Rightarrow> int" where
  "DaysInMonth y m = monthStart (InLeapYear y) m - monthStart (InLeapYear y) (m - 1)"

text \<open>The fields of \<open>YYYY-MM-DD\<close>, when the string has that shape and names a calendar date.\<close>

definition iso_date_fields :: "string \<Rightarrow> (int \<times> int \<times> int) option" where
  "iso_date_fields s =
     (if length s = 10 \<and> s ! 4 = CHR ''-'' \<and> s ! 7 = CHR ''-''
         \<and> all_digits (take 4 s) \<and> all_digits (take 2 (drop 5 s)) \<and> all_digits (drop 8 s)
      then
        (let y = int (digits_val 0 (take 4 s));
             m = int (digits_val 0 (take 2 (drop 5 s)));
             d = int (digits_val 0 (drop 8 s))
         in if 1 \<le> m \<and> m \<le> 12 \<and> 1 \<le> d \<and> d \<le> DaysInMonth y m then Some (y, m, d) else None)
      else None)"

text \<open>The fields of \<open>HH:mm\<close>, with the hour at most 23.\<close>

definition iso_time_fields :: "string \<Rightarrow> (int \<times> int) option" where
  "iso_time_fields s =
     (if length s = 5 \<and> s ! 2 = CHR '':'' \<and> all_digits (take 2 s) \<and> all_digits (drop 3 s)
      then
        (let h = int (digits_val 0 (take 2 s)); mi = int (digits_val 0 (drop 3 s))
         in if h \<le> 23 \<and> mi \<le> 59 then Some (h, mi) else None)
      else None)"

text \<open>
  \<open>new Date(s)\<close> for a string \<open>s\<close>: a date-only ISO string is UTC midnight of that
  date, a date-time ISO string without offset is local time, and any other string is
  left to the platform.
\<close>

definition Date_parse :: "platform \<Rightarrow> string \<Rightarrow> int option" where
  "Date_parse pf s =
     (case iso_date_fields (take 10 s) of
        None \<Rightarrow> legacyParse pf s
      | Some (y, m, d) \<Rightarrow>
          if length s = 10 then TimeClip (MakeDate (MakeDay y (m - 1) d) 0)
          else if length s = 16 \<and> s ! 10 = CHR ''T'' then
            (case iso_time_fields (drop 11 s) of
               None \<Rightarrow> legacyParse pf s
             | Some (h, mi) \<Rightarrow>
                 TimeClip (UTC pf (MakeDate (MakeDay y (m - 1) d) (MakeTime h mi 0 0))))
          else legacyParse pf s)"

text \<open>\<open>new Date(v)\<close> for a field \<open>v\<close> of a parsed row, which is a string or \<open>undefined\<close>.\<close>

definition new_Date :: "platform \<Rightarrow> string option \<Rightarrow> int option" where
  "new_Date pf v = (case v of None \<Rightarrow> None | Some s \<Rightarrow> Date_parse pf s)"

subsection \<open>\<open>parseFloat\<close>\<close>

definition is_space :: "char \<Rightarrow> bool" where
  "is_space c = (c \<in> set [CHR '' '', CHR 0x09, CHR 0x0A, CHR 0x0B, CHR 0x0C, CHR 0x0D])"

definition pow10 :: "int \<Rightarrow> rat" where
  "pow10 k = (if 0 \<le> k then 10 ^ nat k else 1 / 10 ^ nat (- k))"

text \<open>An optional sign in front of a string.\<close>

definition split_sign :: "string \<Rightarrow> bool \<times> string" where
  "split_sign s =
     (case s of
        [] \<Rightarrow> (False, [])
      | c # r \<Rightarrow> if c = CHR ''-'' then (True, r) else if c = CHR ''+'' then (False, r) else (False, s))"

text \<open>The value of an exponent part at the head of a string, 0 when there is none.\<close>

definition exponent_part :: "string \<Rightarrow> int" where
  "exponent_part s =
     (case s of
        [] \<Rightarrow> 0
      | c # r \<Rightarrow>
          if c = CHR ''e'' \<or> c = CHR ''E'' then
            (let (neg, u) = split_sign r; ds = takeWhile is_digit u in
             if ds = [] then 0
             else if neg then - int (digits_val 0 ds) else int (digits_val 0 ds))
          else 0)"

text \<open>
  \<open>parseFloat(v)\<close>: leading white space is skipped, the longest prefix that is a decimal
  literal is read, and NaN is returned when there is none (also for \<open>undefined\<close>).
\<close>

definition parseFloat :: "string option \<Rightarrow> jsnum" where
  "parseFloat v =
     (case v of
        None \<Rightarrow> NaN
      | Some s \<Rightarrow>
          (let (neg, u) = split_sign (dropWhile is_space s) in
           if take 8 u = ''Infinity'' then (if neg then NInf else PInf)
           else
             (let ip = takeWhile is_digit u;
                  r1 = dropWhile is_digit u;
                  dot = (r1 \<noteq> [] \<and> hd r1 = CHR ''.'');
                  fp = (if dot then takeWhile is_digit (tl r1) else []);
                  r2 = (if dot then dropWhile is_digit (tl r1) else r1)
              in if ip = [] \<and> fp = [] then NaN
                 else
                   (let a = of_nat (digits_val 0 (ip @ fp))
                            * pow10 (exponent_part r2 - int (length fp))
                    in Fin (if neg then - a else a)))))"

subsection \<open>\<open>Date\<close> methods in local time\<close>

definition getDate :: "platform \<Rightarrow> int \<Rightarrow> int" where
  "getDate pf t = DateFromTime (LocalTime pf t)"

definition getDay :: "platform \<Rightarrow> int \<Rightarrow> int" where
  "getDay pf t = WeekDay (LocalTime pf t)"

definition setDate :: "platform \<Rightarrow> int \<Rightarrow> int \<Rightarrow> int option" where
  "setDate pf t dt =
     (let l = LocalTime pf t in
      TimeClip (UTC pf (MakeDate (MakeDay (YearFromTime l) (MonthFromTime l) dt)
                                 (TimeWithinDay l))))"

text \<open>\<open>setHours(0, 0, 0, 0)\<close> and \<open>setMinutes(0, 0, 0)\<close>.\<close>

definition setHours_0 :: "platform \<Rightarrow> int \<Rightarrow> int option" where
  "setHours_0 pf t =
     (let l = LocalTime pf t in TimeClip (UTC pf (MakeDate (Day l) (MakeTime 0 0 0 0))))"

definition setMinutes_0 :: "platform \<Rightarrow> int \<Rightarrow> int option" where
  "setMinutes_0 pf t =
     (let l = LocalTime pf t in
      TimeClip (UTC pf (MakeDate (Day l) (MakeTime (HourFromTime l) 0 0 0))))"

subsection \<open>date-fns\<close>

datatype error = RangeError

definition isValid :: "int option \<Rightarrow> bool" where
  "isValid d = (d \<noteq> None)"

definition startOfDay :: "platform \<Rightarrow> int option \<Rightarrow> int option" where
  "startOfDay pf d = (case d of None \<Rightarrow> None | Some t \<Rightarrow> setHours_0 pf t)"

definition startOfHour :: "platform \<Rightarrow> int option \<Rightarrow> int option" where
  "startOfHour pf d = (case d of None \<Rightarrow> None | Some t \<Rightarrow> setMinutes_0 pf t)"

text \<open>Called without options, so \<open>weekStartsOn\<close> is the default 0 (Sunday).\<close>

definition weekStartsOn :: int where "weekStartsOn = 0"

definition startOfWeek :: "platform \<Rightarrow> int option \<Rightarrow> int option" where
  "startOfWeek pf d =
     (case d of
        None \<Rightarrow> None
      | Some t \<Rightarrow>
          (let day = getDay pf t;
               diff = (if day < weekStartsOn then 7 else 0) + day - weekStartsOn
           in case setDate pf t (getDate pf t - diff) of
                None \<Rightarrow> None
              | Some t' \<Rightarrow> setHours_0 pf t'))"

text \<open>The interval's ends are put in ascending order; a NaN on any side gives \<open>false\<close>.\<close>

definition isWithinInterval :: "int option \<Rightarrow> int option \<Rightarrow> int option \<Rightarrow> bool" where
  "isWithinInterval d start end =
     (case (d, start, end) of
        (Some t, Some s, Some e) \<Rightarrow> min s e \<le> t \<and> t \<le> max s e
      | _ \<Rightarrow> False)"

fun first_nonzero :: "int list \<Rightarrow> int" where
  "first_nonzero [] = 0"
| "first_nonzero (x # xs) = (if x \<noteq> 0 then x else first_nonzero xs)"

definition compareLocalAsc :: "platform \<Rightarrow> int option \<Rightarrow> int option \<Rightarrow> int option" where
  "compareLocalAsc pf a b =
     (case (a, b) of
        (Some x, Some y) \<Rightarrow>
          (let l = LocalTime pf x; r = LocalTime pf y in
           Some (sgn (first_nonzero
             [YearFromTime l - YearFromTime r, MonthFromTime l - MonthFromTime r,
              DateFromTime l - DateFromTime r, HourFromTime l - HourFromTime r,
              MinFromTime l - MinFromTime r, SecFromTime l - SecFromTime r,
              msFromTime l - msFromTime r])))
      | _ \<Rightarrow> None)"

text \<open>\<open>date - new Date(Date.UTC(local fields of date))\<close>.\<close>

definition getTimezoneOffsetInMilliseconds :: "platform \<Rightarrow> int \<Rightarrow> int option" where
  "getTimezoneOffsetInMilliseconds pf t =
     (case TimeClip (LocalTime pf t) of None \<Rightarrow> None | Some u \<Rightarrow> Some (t - u))"

definition differenceInCalendarDays :: "platform \<Rightarrow> int option \<Rightarrow> int option \<Rightarrow> int option" where
  "differenceInCalendarDays pf later earlier =
     (case (startOfDay pf later, startOfDay pf earlier) of
        (Some a, Some b) \<Rightarrow>
          (case (getTimezoneOffsetInMilliseconds pf a, getTimezoneOffsetInMilliseconds pf b) of
             (Some oa, Some ob) \<Rightarrow>
               Some (\<lfloor>of_int ((a - oa) - (b - ob)) / of_int msPerDay + (1 / 2 :: rat)\<rfloor>)
           | _ \<Rightarrow> None)
      | _ \<Rightarrow> None)"

definition differenceInDays :: "platform \<Rightarrow> int option \<Rightarrow> int option \<Rightarrow> int option" where
  "differenceInDays pf later earlier =
     (case (compareLocalAsc pf later earlier, differenceInCalendarDays pf later earlier, later) of
        (Some sign, Some dcd, Some t) \<Rightarrow>
          (let difference = \<bar>dcd\<bar>;
               later' = setDate pf t (getDate pf t - sign * difference);
               isLastDayNotFull =
                 (if compareLocalAsc pf later' earlier = Some (- sign) then 1 else 0)
           in Some (sign * (difference - isLastDayNotFull)))
      | _ \<Rightarrow> None)"

datatype token = yyyy | MM | dd | HH | mm | Lit string

definition format_token :: "int \<Rightarrow> token \<Rightarrow> string" where
  "format_token l tk =
     (case tk of
        yyyy \<Rightarrow> (let y = YearFromTime l in addLeadingZeros (nat (if 0 < y then y else 1 - y)) 4)
      | MM \<Rightarrow> addLeadingZeros (nat (MonthFromTime l + 1)) 2
      | dd \<Rightarrow> addLeadingZeros (nat (DateFromTime l)) 2
      | HH \<Rightarrow> addLeadingZeros (nat (HourFromTime l)) 2
      | mm \<Rightarrow> addLeadingZeros (nat (MinFromTime l)) 2
      | Lit s \<Rightarrow> s)"

text \<open>\<open>format\<close> throws a RangeError on an Invalid Date.\<close>

definition format :: "platform \<Rightarrow> int option \<Rightarrow> token list \<Rightarrow> error + string" where
  "format pf d pattern =
     (case d of
        None \<Rightarrow> Inl RangeError
      | Some t \<Rightarrow> Inr (concat (map (format_token (LocalTime pf t)) pattern)))"

subsection \<open>Data model (\<open>types.ts\<close>)\<close>

text \<open>
  A parsed CSV row. The seven columns carry Korean headers in the source: serial number,
  mulching place, battery, date and time, soil moisture, EC and soil temperature. A
  column missing from the file reads as \<open>undefined\<close> (\<open>None\<close>).
\<close>

record RawSensorData =
  raw_serialNumber :: "string option"
  raw_location :: "string option"
  raw_battery :: "string option"
  raw_timestamp :: "string option"
  raw_moisture :: "string option"
  raw_ec :: "string option"
  raw_temperature :: "string option"

record SensorData =
  serialNumber :: string
  location :: string
  battery :: jsnum
  timestamp :: "int option"
  moisture :: jsnum
  ec :: jsnum
  temperature :: jsnum

subsection \<open>Normalisation (\<open>handleFileUpload\<close>)\<close>

definition toSensorData :: "platform \<Rightarrow> RawSensorData \<Rightarrow> SensorData" where
  "toSensorData pf row =
     \<lparr>serialNumber = str_or (raw_serialNumber row) ''N/A'',
      location = str_or (raw_location row) ''Unknown'',
      battery = num_or_0 (parseFloat (raw_battery row)),
      timestamp = new_Date pf (raw_timestamp row),
      moisture = num_or_0 (parseFloat (raw_moisture row)),
      ec = num_or_0 (parseFloat (raw_ec row)),
      temperature = num_or_0 (parseFloat (raw_temperature row))\<rparr>"

definition parsedData :: "platform \<Rightarrow> RawSensorData list \<Rightarrow> SensorData list" where
  "parsedData pf rows = filter (\<lambda>d. isValid (timestamp d)) (map (toSensorData pf) rows)"

text \<open>\<open>Array.from(new Set(data.map(d => d.location)))\<close>: first occurrences, in order.\<close>

definition locations :: "SensorData list \<Rightarrow> string list" where
  "locations data = rev (remdups (rev (map location data)))"

subsection \<open>Aggregation (\<open>filteredAndAggregatedData\<close>)\<close>

datatype aggregationMode = Weekly | Daily | Hourly

text \<open>\<open>daysDiff > 31 ? 'weekly' : daysDiff > 7 ? 'daily' : 'hourly'\<close>; a comparison with NaN is false.\<close>

definition aggregationModeOf :: "int option \<Rightarrow> aggregationMode" where
  "aggregationModeOf daysDiff =
     (if (case daysDiff of None \<Rightarrow> False | Some n \<Rightarrow> 31 < n) then Weekly
      else if (case daysDiff of None \<Rightarrow> False | Some n \<Rightarrow> 7 < n) then Daily
      else Hourly)"

definition dateFiltered ::
  "SensorData list \<Rightarrow> int option \<Rightarrow> int option \<Rightarrow> string list \<Rightarrow> SensorData list" where
  "dateFiltered data start end selectedLocations =
     filter (\<lambda>d. isWithinInterval (timestamp d) start end
                 \<and> (length selectedLocations = 0 \<or> location d \<in> set selectedLocations)) data"

definition timeKeyOf :: "platform \<Rightarrow> aggregationMode \<Rightarrow> SensorData \<Rightarrow> error + string" where
  "timeKeyOf pf mode d =
     (case mode of
        Weekly \<Rightarrow> format pf (startOfWeek pf (timestamp d)) [yyyy, Lit ''-'', MM, Lit ''-'', dd]
      | Daily \<Rightarrow> format pf (startOfDay pf (timestamp d)) [yyyy, Lit ''-'', MM, Lit ''-'', dd]
      | Hourly \<Rightarrow>
          format pf (startOfHour pf (timestamp d))
            [yyyy, Lit ''-'', MM, Lit ''-'', dd, Lit '' '', HH, Lit '':00''])"

text \<open>
  A plain object used as a dictionary is an association list in insertion order, the
  order in which \<open>Object.entries\<close> lists string keys. (Keys that are canonical array
  indices are listed first by the engines; no key of time is one, and for location names
  only the order of the columns inside one bucket would change.)
\<close>

fun assign :: "'k \<Rightarrow> 'v \<Rightarrow> ('k \<times> 'v) list \<Rightarrow> ('k \<times> 'v) list" where
  "assign k v [] = [(k, v)]"
| "assign k v (p # ps) = (if fst p = k then (k, v) # ps else p # assign k v ps)"

record locGroup =
  sum_moisture :: jsnum
  sum_ec :: jsnum
  sum_temperature :: jsnum
  count :: nat

definition emptyGroup :: locGroup where
  "emptyGroup = \<lparr>sum_moisture = Fin 0, sum_ec = Fin 0, sum_temperature = Fin 0, count = 0\<rparr>"

definition accumulate :: "SensorData \<Rightarrow> locGroup \<Rightarrow> locGroup" where
  "accumulate d g =
     \<lparr>sum_moisture = num_add (sum_moisture g) (moisture d),
      sum_ec = num_add (sum_ec g) (ec d),
      sum_temperature = num_add (sum_temperature g) (temperature d),
      count = count g + 1\<rparr>"

text \<open>
  The property names every plain object inherits from \<open>Object.prototype\<close>. Reading one
  of them from \<open>timeLocationGroups[timeKey]\<close> gives a truthy inherited value, so no group
  is created for a location of that name and its sums are written on the inherited
  object, which \<open>Object.entries\<close> does not list.
\<close>

definition inheritedNames :: "string list" where
  "inheritedNames =
     [''constructor'', ''hasOwnProperty'', ''isPrototypeOf'', ''propertyIsEnumerable'',
      ''toLocaleString'', ''toString'', ''valueOf'', ''__proto__'',
      ''__defineGetter__'', ''__defineSetter__'', ''__lookupGetter__'', ''__lookupSetter__'']"

definition addToLocs :: "SensorData \<Rightarrow> (string \<times> locGroup) list \<Rightarrow> (string \<times> locGroup) list" where
  "addToLocs d locs =
     (case map_of locs (location d) of
        None \<Rightarrow>
          if location d \<in> set inheritedNames then locs
          else assign (location d) (accumulate d emptyGroup) locs
      | Some g \<Rightarrow> assign (location d) (accumulate d g) locs)"

type_synonym groups = "(string \<times> (string \<times> locGroup) list) list"

definition addReading :: "string \<Rightarrow> SensorData \<Rightarrow> groups \<Rightarrow> groups" where
  "addReading timeKey d gs =
     (case map_of gs timeKey of
        None \<Rightarrow> assign timeKey (addToLocs d []) gs
      | Some locs \<Rightarrow> assign timeKey (addToLocs d locs) gs)"

text \<open>The \<open>forEach\<close> loop; an exception thrown by \<open>format\<close> ends it.\<close>

fun groupAll :: "platform \<Rightarrow> aggregationMode \<Rightarrow> SensorData list \<Rightarrow> groups \<Rightarrow> error + groups" where
  "groupAll pf mode [] gs = Inr gs"
| "groupAll pf mode (d # ds) gs =
     (case timeKeyOf pf mode d of
        Inl e \<Rightarrow> Inl e
      | Inr timeKey \<Rightarrow> groupAll pf mode ds (addReading timeKey d gs))"

record bucket =
  date :: string
  displayDate :: string
  metrics :: "(string \<times> jsnum) list"

definition displayDateOf :: "platform \<Rightarrow> aggregationMode \<Rightarrow> string \<Rightarrow> error + string" where
  "displayDateOf pf mode timeKey =
     (case mode of
        Weekly \<Rightarrow>
          (case format pf (Date_parse pf timeKey) [MM, Lit ''/'', dd] of
             Inl e \<Rightarrow> Inl e
           | Inr s \<Rightarrow> Inr (s @ '' (Week)''))
      | Daily \<Rightarrow> format pf (Date_parse pf timeKey) [MM, Lit ''/'', dd]
      | Hourly \<Rightarrow> format pf (Date_parse pf timeKey) [MM, Lit ''/'', dd, Lit '' '', HH, Lit '':'', mm])"

definition addMetrics :: "string \<times> locGroup \<Rightarrow> (string \<times> jsnum) list \<Rightarrow> (string \<times> jsnum) list" where
  "addMetrics entry res =
     (let loc = fst entry; stats = snd entry in
      assign (loc @ ''_temperature'') (Number_toFixed2 (num_div (sum_temperature stats) (count stats)))
        (assign (loc @ ''_ec'') (Number_toFixed2 (num_div (sum_ec stats) (count stats)))
          (assign (loc @ ''_moisture'') (Number_toFixed2 (num_div (sum_moisture stats) (count stats)))
            res)))"

definition flattenEntry ::
  "platform \<Rightarrow> aggregationMode \<Rightarrow> string \<times> (string \<times> locGroup) list \<Rightarrow> error + bucket" where
  "flattenEntry pf mode entry =
     (case displayDateOf pf mode (fst entry) of
        Inl e \<Rightarrow> Inl e
      | Inr disp \<Rightarrow>
          Inr \<lparr>date = fst entry, displayDate = disp, metrics = fold addMetrics (snd entry) []\<rparr>)"

text \<open>\<open>Object.entries(timeLocationGroups).map(...)\<close>; the first exception ends it.\<close>

fun flatten :: "platform \<Rightarrow> aggregationMode \<Rightarrow> groups \<Rightarrow> error + bucket list" where
  "flatten pf mode [] = Inr []"
| "flatten pf mode (entry # es) =
     (case flattenEntry pf mode entry of
        Inl e \<Rightarrow> Inl e
      | Inr b \<Rightarrow> (case flatten pf mode es of Inl e \<Rightarrow> Inl e | Inr bs \<Rightarrow> Inr (b # bs)))"

text \<open>
  The final \<open>sort\<close> is stable and compares the keys with \<open>localeCompare\<close>, modelled by the
  code-unit order of strings.
\<close>

definition filteredAndAggregatedData ::
  "platform \<Rightarrow> SensorData list \<Rightarrow> string \<Rightarrow> string \<Rightarrow> string list \<Rightarrow> error + bucket list" where
  "filteredAndAggregatedData pf data startDate endDate selectedLocations =
     (if length data = 0 \<or> startDate = [] \<or> endDate = [] then Inr []
      else
        (let start = Date_parse pf startDate;
             end = Date_parse pf endDate;
             daysDiff = differenceInDays pf end start;
             aggregationMode = aggregationModeOf daysDiff
         in case groupAll pf aggregationMode
                   (dateFiltered data start end selectedLocations) [] of
              Inl e \<Rightarrow> Inl e
            | Inr timeLocationGroups \<Rightarrow>
                (case flatten pf aggregationMode timeLocationGroups of
                   Inl e \<Rightarrow> Inl e
                 | Inr res \<Rightarrow> Inr (sort_key date res))))"

subsection \<open>The state set by an upload (\<open>handleFileUpload\<close>)\<close>

record appState =
  s_data :: "SensorData list"
  s_startDate :: string
  s_endDate :: string
  s_selectedLocations :: "string list"

text \<open>\<open>Math.min(...dates)\<close> and \<open>Math.max(...dates)\<close>; \<open>None\<close> is the infinite result for no argument.\<close>

fun Math_min :: "int list \<Rightarrow> int option" where
  "Math_min [] = None"
| "Math_min (x # xs) = Some (fold min xs x)"

fun Math_max :: "int list \<Rightarrow> int option" where
  "Math_max [] = None"
| "Math_max (x # xs) = Some (fold max xs x)"

definition new_Date_of_number :: "int option \<Rightarrow> int option" where
  "new_Date_of_number v = (case v of None \<Rightarrow> None | Some t \<Rightarrow> TimeClip t)"

text \<open>
  The \<open>complete\<close> callback, on the rows delivered by the CSV parser. With no valid row
  it alerts and leaves the state alone. An exception after \<open>setData\<close> is caught, which
  keeps the updates made before it.
\<close>

definition handleFileUpload :: "platform \<Rightarrow> RawSensorData list \<Rightarrow> appState \<Rightarrow> appState" where
  "handleFileUpload pf rows st =
     (let parsed = parsedData pf rows in
      if length parsed = 0 then st
      else
        (let st1 = st\<lparr>s_data := parsed\<rparr>;
             dates = List.map_filter timestamp parsed
         in case format pf (new_Date_of_number (Math_min dates)) [yyyy, Lit ''-'', MM, Lit ''-'', dd] of
              Inl e \<Rightarrow> st1
            | Inr a \<Rightarrow>
                (case format pf (new_Date_of_number (Math_max dates))
                        [yyyy, Lit ''-'', MM, Lit ''-'', dd] of
                   Inl e \<Rightarrow> st1\<lparr>s_startDate := a\<rparr>
                 | Inr b \<Rightarrow>
                     st1\<lparr>s_startDate := a, s_endDate := b,
                         s_selectedLocations := locations parsed\<rparr>)))"

definition initialState :: appState where
  "initialState = \<lparr>s_data = [], s_startDate = [], s_endDate = [], s_selectedLocations = []\<rparr>"

subsection \<open>Notions of the specification\<close>



definition startOfSundayWeek :: "platform \<Rightarrow> int \<Rightarrow> int" where
  "startOfSundayWeek pf t =
     (let n = Day (LocalTime pf t) in UTC pf (MakeDate (n - (n + 4) mod 7) 0))"

text \<open>
  A zone in which a local time converted to UTC and back stays on its calendar day: every
  zone with a fixed offset, and every zone whose changes of offset do not reach across
  midnight. And a zone with the fixed offset \<open>z\<close>.
\<close>

definition keepsLocalDay :: "platform \<Rightarrow> bool" where
  "keepsLocalDay pf \<longleftrightarrow> (\<forall>l. Day (LocalTime pf (UTC pf l)) = Day l)"

definition fixedZone :: "platform \<Rightarrow> int \<Rightarrow> bool" where
  "fixedZone pf z \<longleftrightarrow> LocalTZA_utc pf = (\<lambda>t. z) \<and> LocalTZA_local pf = (\<lambda>t. z)"





text \<open>The \<open>k\<close> low decimal digits of a number, most significant first.\<close>

fun padded :: "nat \<Rightarrow> nat \<Rightarrow> string" where
  "padded 0 n = []"
| "padded (Suc k) n = padded k (n div 10) @ [digit_char n]"

text \<open>
  The local time at which the bucket of a local time \<open>l\<close> starts, and the key of that
  bucket.
\<close>

definition bucketStart :: "aggregationMode \<Rightarrow> int \<Rightarrow> int" where
  "bucketStart mode l =
     (case mode of
        Weekly \<Rightarrow> (Day l - WeekDay l) * msPerDay
      | Daily \<Rightarrow> Day l * msPerDay
      | Hourly \<Rightarrow> Day l * msPerDay + HourFromTime l * msPerHour)"

definition localKey :: "aggregationMode \<Rightarrow> int \<Rightarrow> string" where
  "localKey mode l =
     concat (map (format_token (bucketStart mode l))
       (case mode of
          Hourly \<Rightarrow> [yyyy, Lit ''-'', MM, Lit ''-'', dd, Lit '' '', HH, Lit '':00'']
        | _ \<Rightarrow> [yyyy, Lit ''-'', MM, Lit ''-'', dd]))"

subsection \<open>Example platforms and readings\<close>

text \<open>
  A \<open>Date\<close> parser that reads \<open>YYYY-MM-DD HH:mm\<close> as local time (the shape of the hourly
  keys, which is not an ISO string) and rejects other non-ISO strings.
\<close>

definition spaceDateTime :: "(int \<Rightarrow> int) \<Rightarrow> string \<Rightarrow> int option" where
  "spaceDateTime tza s =
     (if length s = 16 \<and> s ! 10 = CHR '' '' then
        (case (iso_date_fields (take 10 s), iso_time_fields (drop 11 s)) of
           (Some (y, m, d), Some (h, mi)) \<Rightarrow>
             (let l = MakeDate (MakeDay y (m - 1) d) (MakeTime h mi 0 0) in TimeClip (l - tza l))
         | _ \<Rightarrow> None)
      else None)"

text \<open>A browser in a zone that is always \<open>tz\<close> minutes east of Greenwich.\<close>

definition browser :: "int \<Rightarrow> platform" where
  "browser tz =
     \<lparr>LocalTZA_utc = (\<lambda>t. tz * msPerMinute), LocalTZA_local = (\<lambda>t. tz * msPerMinute),
      legacyParse = spaceDateTime (\<lambda>t. tz * msPerMinute)\<rparr>"




definition reading :: "string \<Rightarrow> int option \<Rightarrow> jsnum \<Rightarrow> SensorData" where
  "reading loc ts m =
     \<lparr>serialNumber = ''S1'', location = loc, battery = Fin 90, timestamp = ts,
      moisture = m, ec = Fin 1, temperature = Fin 2\<rparr>"

definition row :: "string \<Rightarrow> string \<Rightarrow> string \<Rightarrow> RawSensorData" where
  "row loc ts m =
     \<lparr>raw_serialNumber = Some ''S1'', raw_location = Some loc, raw_battery = Some ''90'',
      raw_timestamp = Some ts, raw_moisture = Some m, raw_ec = Some ''1'',
      raw_temperature = Some ''2''\<rparr>"

text \<open>The end-to-end scenario: two rows at location A, at 01:00 and 02:00 of 2024-01-01.\<close>

definition e2e_rows :: "RawSensorData list" where
  "e2e_rows = [row ''A'' ''2024-01-01T01:00'' ''10'', row ''A'' ''2024-01-01T02:00'' ''20'']"

definition e2e_readings :: "platform \<Rightarrow> SensorData list" where
  "e2e_readings pf =
     [reading ''A'' (Date_parse pf ''2024-01-01T01:00'') (Fin 10),
      reading ''A'' (Date_parse pf ''2024-01-01T02:00'') (Fin 20)]"


section \<open>Properties\<close>

subsection \<open>The filter\<close>

lemma dateFiltered_no_selection:
  "dateFiltered data a b [] = dateFiltered data a b (locations data)"
  unfolding dateFiltered_def locations_def by (rule filter_cong) auto

lemma dateFiltered_absent:
  "sel \<noteq> [] \<Longrightarrow> set sel \<inter> location ` set data = {} \<Longrightarrow> dateFiltered data a b sel = []"
  unfolding dateFiltered_def by (auto simp: filter_empty_conv)

lemma dateFiltered_outside:
  "\<forall>d \<in> set data. \<not> isWithinInterval (timestamp d) a b \<Longrightarrow> dateFiltered data a b sel = []"
  unfolding dateFiltered_def by (auto simp: filter_empty_conv)

lemma isWithinInterval_swap: "isWithinInterval d a b = isWithinInterval d b a"
  by (auto simp: isWithinInterval_def min_def max_def split: option.splits)

lemma dateFiltered_swap: "dateFiltered data a b sel = dateFiltered data b a sel"
  unfolding dateFiltered_def by (rule filter_cong) (auto simp: isWithinInterval_swap)

lemma nothing_kept_nothing_returned:
  "dateFiltered data (Date_parse pf s) (Date_parse pf e) sel = [] \<Longrightarrow>
   filteredAndAggregatedData pf data s e sel = Inr []"
  by (simp add: filteredAndAggregatedData_def Let_def)

subsection \<open>Association lists\<close>



lemma set_assign_subset: "set (assign k v ps) \<subseteq> insert (k, v) (set ps)"
  by (induction ps) auto


subsection \<open>The grouping loop\<close>





lemma flatten_metrics:
  "flatten pf mode gs = Inr bs \<Longrightarrow> b \<in> set bs \<Longrightarrow>
   \<exists>locs. (date b, locs) \<in> set gs \<and> metrics b = fold addMetrics locs []"
proof (induction gs arbitrary: bs)
  case Nil
  then show ?case by simp
next
  case (Cons entry gs)
  then obtain b' bs' where b': "flattenEntry pf mode entry = Inr b'"
    and bs': "flatten pf mode gs = Inr bs'" and bs: "bs = b' # bs'"
    by (auto split: sum.splits)
  show ?case
  proof (cases "b = b'")
    case True
    with b' have "(date b, snd entry) = entry \<and> metrics b = fold addMetrics (snd entry) []"
      by (auto simp: flattenEntry_def split: sum.splits)
    then show ?thesis by (metis list.set_intros(1))
  next
    case False
    with Cons.prems(2) bs have "b \<in> set bs'" by simp
    from Cons.IH [OF bs' this] show ?thesis by auto
  qed
qed

text \<open>What a successful run of the aggregation went through.\<close>

lemma filteredAndAggregatedData_run:
  assumes "filteredAndAggregatedData pf data startDate endDate sel = Inr res"
    and "data \<noteq> []" and "startDate \<noteq> []" and "endDate \<noteq> []"
  obtains gs bs where
    "groupAll pf (aggregationModeOf (differenceInDays pf (Date_parse pf endDate) (Date_parse pf startDate)))
       (dateFiltered data (Date_parse pf startDate) (Date_parse pf endDate) sel) [] = Inr gs"
    and "flatten pf (aggregationModeOf (differenceInDays pf (Date_parse pf endDate) (Date_parse pf startDate))) gs
       = Inr bs"
    and "set res = set bs"
  using assms
  by (auto simp: filteredAndAggregatedData_def Let_def split: if_splits sum.splits)

lemma nonempty_result_parameters:
  assumes "filteredAndAggregatedData pf data startDate endDate sel = Inr res" and "res \<noteq> []"
  shows "data \<noteq> [] \<and> startDate \<noteq> [] \<and> endDate \<noteq> []"
  using assms by (auto simp: filteredAndAggregatedData_def split: if_splits)

subsection \<open>Weeks\<close>

lemma MonthFromTime_range: "0 \<le> MonthFromTime l \<and> MonthFromTime l \<le> 11"
  by (simp add: MonthFromTime_def Let_def)

lemma MakeDay_of_fields:
  "MakeDay (YearFromTime l) (MonthFromTime l) (DateFromTime l - n) = Day l - n"
proof -
  have "MonthFromTime l div 12 = 0" "MonthFromTime l mod 12 = MonthFromTime l"
    using MonthFromTime_range [of l] by simp_all
  then show ?thesis
    by (simp add: MakeDay_def DateFromTime_def DayWithinYear_def)
qed

lemma Day_MakeDate: "0 \<le> r \<Longrightarrow> r < msPerDay \<Longrightarrow> Day (MakeDate n r) = n"
  by (simp add: Day_def MakeDate_def msPerDay_def)

lemma fixedZone_LocalTime_UTC: "fixedZone pf z \<Longrightarrow> LocalTime pf (UTC pf l) = l"
  by (simp add: fixedZone_def LocalTime_def UTC_def)

lemma fixedZone_keepsLocalDay: "fixedZone pf z \<Longrightarrow> keepsLocalDay pf"
  by (simp add: keepsLocalDay_def fixedZone_LocalTime_UTC)


lemma startOfWeek_Some:
  assumes "keepsLocalDay pf" and "startOfWeek pf (Some t) = Some u"
  shows "u = startOfSundayWeek pf t"
proof -
  let ?l = "LocalTime pf t"
  let ?w = "WeekDay ?l"
  have w: "0 \<le> ?w" by (simp add: WeekDay_def)
  from assms(2) obtain t' where
    t': "setDate pf t (getDate pf t - ?w) = Some t'" and u: "setHours_0 pf t' = Some u"
    using w by (auto simp: startOfWeek_def getDay_def weekStartsOn_def Let_def split: option.splits)
  have "0 \<le> TimeWithinDay ?l" "TimeWithinDay ?l < msPerDay"
    by (simp_all add: TimeWithinDay_def msPerDay_def)
  then have "Day (MakeDate (Day ?l - ?w) (TimeWithinDay ?l)) = Day ?l - ?w"
    by (rule Day_MakeDate)
  moreover from t' have "t' = UTC pf (MakeDate (Day ?l - ?w) (TimeWithinDay ?l))"
    by (auto simp: setDate_def getDate_def MakeDay_of_fields TimeClip_def Let_def split: if_splits)
  ultimately have "Day (LocalTime pf t') = Day ?l - ?w"
    using assms(1) by (simp add: keepsLocalDay_def)
  with u show ?thesis
    by (auto simp: setHours_0_def startOfSundayWeek_def TimeClip_def MakeTime_def WeekDay_def Let_def
        split: if_splits)
qed


subsection \<open>Counts\<close>

lemma in_assign: "(k', v') \<in> set (assign k v ps) \<Longrightarrow> (k', v') = (k, v) \<or> (k', v') \<in> set ps"
  by (induction ps) (auto split: if_splits)

lemma isFinite_emitted:
  "isFinite x \<Longrightarrow> 1 \<le> n \<Longrightarrow> isFinite (Number_toFixed2 (num_div x n))"
  by (cases x) (auto simp: isFinite_def)

lemma in_addToLocs:
  assumes "(l, g) \<in> set (addToLocs d locs)"
  shows "(l, g) \<in> set locs \<or> (\<exists>g0. g = accumulate d g0)"
proof (cases "map_of locs (location d)")
  case None
  show ?thesis
  proof (cases "location d \<in> set inheritedNames")
    case True
    with None assms show ?thesis by (simp add: addToLocs_def)
  next
    case False
    with None assms have "(l, g) \<in> set (assign (location d) (accumulate d emptyGroup) locs)"
      by (simp add: addToLocs_def)
    from in_assign [OF this] show ?thesis by auto
  qed
next
  case (Some g0)
  with assms have "(l, g) \<in> set (assign (location d) (accumulate d g0) locs)"
    by (simp add: addToLocs_def)
  from in_assign [OF this] show ?thesis by auto
qed

lemma in_addReading:
  assumes "(k', locs) \<in> set (addReading k d gs)"
  shows "(k', locs) \<in> set gs \<or> locs = addToLocs d [] \<or> (\<exists>old. (k, old) \<in> set gs \<and> locs = addToLocs d old)"
proof (cases "map_of gs k")
  case None
  with assms have "(k', locs) \<in> set (assign k (addToLocs d []) gs)"
    by (simp add: addReading_def)
  from in_assign [OF this] show ?thesis by auto
next
  case (Some old)
  with assms have "(k', locs) \<in> set (assign k (addToLocs d old) gs)"
    by (simp add: addReading_def)
  from in_assign [OF this] map_of_SomeD [OF Some] show ?thesis by auto
qed

lemma addToLocs_counts:
  assumes "\<And>l g. (l, g) \<in> set locs \<Longrightarrow> 1 \<le> count g" and "(l, g) \<in> set (addToLocs d locs)"
  shows "1 \<le> count g"
  using in_addToLocs [OF assms(2)] assms(1) by (auto simp: accumulate_def)

lemma addReading_counts:
  assumes "\<And>k locs l g. (k, locs) \<in> set gs \<Longrightarrow> (l, g) \<in> set locs \<Longrightarrow> 1 \<le> count g"
    and "(k', locs) \<in> set (addReading k d gs)" and "(l, g) \<in> set locs"
  shows "1 \<le> count g"
  using in_addReading [OF assms(2)]
proof (elim disjE exE conjE)
  assume "(k', locs) \<in> set gs"
  with assms(1,3) show ?thesis by blast
next
  assume "locs = addToLocs d []"
  with assms(3) show ?thesis using addToLocs_counts [of "[]" l g d] by simp
next
  fix old
  assume old: "(k, old) \<in> set gs" "locs = addToLocs d old"
  from assms(1) [OF old(1)] assms(3) old(2) show ?thesis
    using addToLocs_counts [of old l g d] by blast
qed

lemma groupAll_counts:
  "groupAll pf mode ds gs = Inr gs' \<Longrightarrow>
   (\<And>k locs l g. (k, locs) \<in> set gs \<Longrightarrow> (l, g) \<in> set locs \<Longrightarrow> 1 \<le> count g) \<Longrightarrow>
   (k, locs) \<in> set gs' \<Longrightarrow> (l, g) \<in> set locs \<Longrightarrow> 1 \<le> count g"
proof (induction ds arbitrary: gs)
  case Nil
  then show ?case by auto
next
  case (Cons d ds)
  from Cons.prems(1) obtain k0 where rest: "groupAll pf mode ds (addReading k0 d gs) = Inr gs'"
    by (auto split: sum.splits)
  show ?case
  proof (rule Cons.IH [OF rest _ Cons.prems(3,4)])
    fix k1 locs1 l1 g1
    assume "(k1, locs1) \<in> set (addReading k0 d gs)" "(l1, g1) \<in> set locs1"
    then show "1 \<le> count g1"
      using addReading_counts [of gs k1 locs1 k0 d l1 g1] Cons.prems(2) by blast
  qed
qed

text \<open>Where the entries of a bucket come from.\<close>

lemma in_addMetrics:
  assumes "(key, v) \<in> set (addMetrics (loc, g) acc)"
  shows "(key, v) \<in> set acc
      \<or> (key = loc @ ''_moisture'' \<and> v = Number_toFixed2 (num_div (sum_moisture g) (count g)))
      \<or> (key = loc @ ''_ec'' \<and> v = Number_toFixed2 (num_div (sum_ec g) (count g)))
      \<or> (key = loc @ ''_temperature'' \<and> v = Number_toFixed2 (num_div (sum_temperature g) (count g)))"
proof -
  from assms have "(key, v) \<in> set (assign (loc @ ''_temperature'')
        (Number_toFixed2 (num_div (sum_temperature g) (count g)))
        (assign (loc @ ''_ec'') (Number_toFixed2 (num_div (sum_ec g) (count g)))
          (assign (loc @ ''_moisture'') (Number_toFixed2 (num_div (sum_moisture g) (count g)))
            acc)))"
    by (simp add: addMetrics_def)
  from in_assign [OF this] show ?thesis
  proof
    assume "(key, v) \<in> set (assign (loc @ ''_ec'') (Number_toFixed2 (num_div (sum_ec g) (count g)))
          (assign (loc @ ''_moisture'') (Number_toFixed2 (num_div (sum_moisture g) (count g)))
            acc))"
    from in_assign [OF this] show ?thesis
    proof
      assume "(key, v) \<in> set (assign (loc @ ''_moisture'')
          (Number_toFixed2 (num_div (sum_moisture g) (count g))) acc)"
      from in_assign [OF this] show ?thesis by auto
    qed simp
  qed simp
qed

lemma addMetrics_entries:
  assumes "(key, v) \<in> set (fold addMetrics locs acc)"
  shows "(key, v) \<in> set acc \<or>
    (\<exists>loc g. (loc, g) \<in> set locs \<and>
       ((key = loc @ ''_moisture'' \<and> v = Number_toFixed2 (num_div (sum_moisture g) (count g)))
        \<or> (key = loc @ ''_ec'' \<and> v = Number_toFixed2 (num_div (sum_ec g) (count g)))
        \<or> (key = loc @ ''_temperature''
            \<and> v = Number_toFixed2 (num_div (sum_temperature g) (count g)))))"
  using assms
proof (induction locs arbitrary: acc)
  case Nil
  then show ?case by simp
next
  case (Cons e locs)
  obtain loc g where e: "e = (loc, g)" by (cases e)
  from Cons.prems have "(key, v) \<in> set (fold addMetrics locs (addMetrics (loc, g) acc))"
    by (simp add: e)
  from Cons.IH [OF this] show ?case
  proof
    assume "(key, v) \<in> set (addMetrics (loc, g) acc)"
    from in_addMetrics [OF this] show ?thesis unfolding e by auto
  next
    assume "\<exists>loc g. (loc, g) \<in> set locs \<and>
       ((key = loc @ ''_moisture'' \<and> v = Number_toFixed2 (num_div (sum_moisture g) (count g)))
        \<or> (key = loc @ ''_ec'' \<and> v = Number_toFixed2 (num_div (sum_ec g) (count g)))
        \<or> (key = loc @ ''_temperature''
            \<and> v = Number_toFixed2 (num_div (sum_temperature g) (count g))))"
    then show ?thesis by auto
  qed
qed

subsection \<open>Sums\<close>













subsection \<open>The columns of a bucket\<close>







subsection \<open>Rounding to two decimals\<close>



subsection \<open>The calendar\<close>

lemma div_bounds:
  fixes x n :: int
  assumes "0 < n"
  shows "n * (x div n) \<le> x" and "x < n * (x div n) + n"
proof -
  have "x = n * (x div n) + x mod n" by simp
  moreover have "0 \<le> x mod n" "x mod n < n" using assms by simp_all
  ultimately show "n * (x div n) \<le> x" and "x < n * (x div n) + n" by linarith+
qed

lemma YearFromDay_estimate:
  "DayFromYear (1970 + (400 * d) div 146097 - 1) \<le> d
   \<and> d < DayFromYear (1970 + (400 * d) div 146097 + 2)"
proof -
  define k where "k = (400 * d) div 146097"
  define a where "a = k div 4"
  define b where "b = (k + 68) div 100"
  define c where "c = (k + 368) div 400"
  define a' where "a' = (k + 3) div 4"
  define b' where "b' = (k + 71) div 100"
  define c' where "c' = (k + 371) div 400"
  note k = div_bounds [of 146097 "400 * d", folded k_def]
  note q = div_bounds [of 4 k, folded a_def] div_bounds [of 100 "k + 68", folded b_def]
    div_bounds [of 400 "k + 368", folded c_def] div_bounds [of 4 "k + 3", folded a'_def]
    div_bounds [of 100 "k + 71", folded b'_def] div_bounds [of 400 "k + 371", folded c'_def]
  have "DayFromYear (1970 + k - 1) = 365 * (k - 1) + a - b + c"
    by (simp add: DayFromYear_def a_def b_def c_def algebra_simps)
  moreover have "DayFromYear (1970 + k + 2) = 365 * (k + 2) + a' - b' + c'"
    by (simp add: DayFromYear_def a'_def b'_def c'_def algebra_simps)
  ultimately show ?thesis
    unfolding k_def [symmetric] using k q by simp
qed

lemma div_step:
  fixes x n :: int
  assumes "0 < n"
  shows "(x + 1) div n = x div n + (if (x + 1) mod n = 0 then 1 else 0)"
proof -
  define q where "q = x div n"
  define r where "r = x mod n"
  have x: "x = n * q + r" and r: "0 \<le> r" "r < n"
    using assms by (simp_all add: q_def r_def)
  show ?thesis
  proof (cases "r = n - 1")
    case True
    with x have e: "x + 1 = n * (q + 1) + 0" by (simp add: algebra_simps)
    have "(x + 1) div n = q + 1" using assms by (subst e) simp
    moreover have "(x + 1) mod n = 0" by (subst e) simp
    ultimately show ?thesis by (simp add: q_def)
  next
    case False
    with r have r1: "0 \<le> r + 1" "r + 1 < n" by simp_all
    from x have e: "x + 1 = n * q + (r + 1)" by simp
    have "(x + 1) div n = q" using r1 by (subst e) (simp add: div_pos_pos_trivial)
    moreover have "(x + 1) mod n = r + 1" using r1 by (subst e) (simp add: mod_pos_pos_trivial)
    ultimately show ?thesis using r by (simp add: q_def)
  qed
qed

lemma mod_shift:
  fixes y n c :: int
  assumes "n dvd c"
  shows "(y - c) mod n = 0 \<longleftrightarrow> y mod n = 0"
  using dvd_diff_left_iff [OF assms, of y] dvd_diff_commute [of n c y]
  by (simp add: mod_eq_0_iff_dvd)

lemma year_steps:
  fixes y :: int
  shows "(y + 1 - 1969) div 4 = (y - 1969) div 4 + (if y mod 4 = 0 then 1 else 0)"
    and "(y + 1 - 1901) div 100 = (y - 1901) div 100 + (if y mod 100 = 0 then 1 else 0)"
    and "(y + 1 - 1601) div 400 = (y - 1601) div 400 + (if y mod 400 = 0 then 1 else 0)"
proof -
  have "(y - 1969 + 1) div 4 = (y - 1969) div 4 + (if (y - 1968) mod 4 = 0 then 1 else 0)"
    using div_step [of 4 "y - 1969"] by (simp add: algebra_simps)
  moreover have "(y - 1968) mod 4 = 0 \<longleftrightarrow> y mod 4 = 0" by (rule mod_shift) simp
  ultimately show "(y + 1 - 1969) div 4 = (y - 1969) div 4 + (if y mod 4 = 0 then 1 else 0)"
    by (simp add: algebra_simps)
  have "(y - 1901 + 1) div 100 = (y - 1901) div 100 + (if (y - 1900) mod 100 = 0 then 1 else 0)"
    using div_step [of 100 "y - 1901"] by (simp add: algebra_simps)
  moreover have "(y - 1900) mod 100 = 0 \<longleftrightarrow> y mod 100 = 0" by (rule mod_shift) simp
  ultimately show "(y + 1 - 1901) div 100 = (y - 1901) div 100 + (if y mod 100 = 0 then 1 else 0)"
    by (simp add: algebra_simps)
  have "(y - 1601 + 1) div 400 = (y - 1601) div 400 + (if (y - 1600) mod 400 = 0 then 1 else 0)"
    using div_step [of 400 "y - 1601"] by (simp add: algebra_simps)
  moreover have "(y - 1600) mod 400 = 0 \<longleftrightarrow> y mod 400 = 0" by (rule mod_shift) simp
  ultimately show "(y + 1 - 1601) div 400 = (y - 1601) div 400 + (if y mod 400 = 0 then 1 else 0)"
    by (simp add: algebra_simps)
qed

lemma leap_chain:
  fixes y :: int
  shows "y mod 400 = 0 \<Longrightarrow> y mod 100 = 0" and "y mod 100 = 0 \<Longrightarrow> y mod 4 = 0"
proof -
  have "(100::int) dvd 400" "(4::int) dvd 100" by simp_all
  then show "y mod 400 = 0 \<Longrightarrow> y mod 100 = 0" and "y mod 100 = 0 \<Longrightarrow> y mod 4 = 0"
    by (auto simp: mod_eq_0_iff_dvd elim: dvd_trans)
qed

lemma DayFromYear_Suc:
  "DayFromYear (y + 1) = DayFromYear y + (if InLeapYear y then 366 else 365)"
proof -
  define p where "p \<longleftrightarrow> y mod 4 = 0"
  define q where "q \<longleftrightarrow> y mod 100 = 0"
  define r where "r \<longleftrightarrow> y mod 400 = 0"
  define u where "u = (y - 1969) div 4"
  define v where "v = (y - 1901) div 100"
  define w where "w = (y - 1601) div 400"
  have 1: "DayFromYear (y + 1)
      = 365 * (y + 1 - 1970) + (u + (if p then 1 else 0)) - (v + (if q then 1 else 0))
        + (w + (if r then 1 else 0))"
    unfolding DayFromYear_def year_steps p_def q_def r_def u_def v_def w_def ..
  have 2: "DayFromYear y = 365 * (y - 1970) + u - v + w"
    unfolding DayFromYear_def u_def v_def w_def ..
  have 3: "InLeapYear y \<longleftrightarrow> p \<and> (\<not> q \<or> r)"
    unfolding InLeapYear_def p_def q_def r_def by blast
  have 4: "r \<longrightarrow> q" "q \<longrightarrow> p"
    unfolding p_def q_def r_def using leap_chain [of y] by blast+
  show ?thesis
    unfolding 1 2 3 using 4 by (cases p; cases q; cases r) simp_all
qed

lemma YearFromDay_spec:
  "DayFromYear (YearFromDay d) \<le> d \<and> d < DayFromYear (YearFromDay d + 1)"
proof -
  define y where "y = 1970 + (400 * d) div 146097"
  from YearFromDay_estimate [of d]
  have lo: "DayFromYear (y - 1) \<le> d" and hi: "d < DayFromYear (y + 1 + 1)"
    by (simp_all add: y_def)
  have "y - 1 + 1 = y" by simp
  with lo hi show ?thesis
    unfolding YearFromDay_def Let_def y_def [symmetric] by auto
qed

lemma DayFromYear_mono: "y \<le> y' \<Longrightarrow> DayFromYear y \<le> DayFromYear y'"
proof (induction "nat (y' - y)" arbitrary: y')
  case 0
  then show ?case by simp
next
  case (Suc n)
  then have "n = nat (y' - 1 - y)" "y \<le> y' - 1" by simp_all
  from Suc.hyps(1) [OF this] DayFromYear_Suc [of "y' - 1"] show ?case
    by (simp split: if_splits)
qed

lemma YearFromDay_mono:
  assumes "d \<le> d'"
  shows "YearFromDay d \<le> YearFromDay d'"
proof (rule ccontr)
  assume "\<not> YearFromDay d \<le> YearFromDay d'"
  then have "YearFromDay d' + 1 \<le> YearFromDay d" by simp
  from DayFromYear_mono [OF this] YearFromDay_spec [of d] YearFromDay_spec [of d'] assms
  show False by simp
qed

lemma DayWithinYear_range:
  "0 \<le> DayWithinYear t
   \<and> DayWithinYear t < (if InLeapYear (YearFromTime t) then 366 else 365)"
  using YearFromDay_spec [of "Day t"] DayFromYear_Suc [of "YearFromDay (Day t)"]
  by (simp add: DayWithinYear_def YearFromTime_def split: if_splits)

lemma MonthFromTime_mono:
  assumes "YearFromTime l = YearFromTime r" and "DayWithinYear l \<le> DayWithinYear r"
  shows "MonthFromTime l \<le> MonthFromTime r"
  using assms(2) unfolding MonthFromTime_def Let_def assms(1) monthStart_def
  by (simp split: if_splits)

lemma date_fields_less:
  assumes "Day l < Day r"
  shows "YearFromTime l < YearFromTime r
    \<or> (YearFromTime l = YearFromTime r
        \<and> (MonthFromTime l < MonthFromTime r
            \<or> (MonthFromTime l = MonthFromTime r \<and> DateFromTime l < DateFromTime r)))"
proof (cases "YearFromTime l = YearFromTime r")
  case False
  with YearFromDay_mono [of "Day l" "Day r"] assms show ?thesis
    by (simp add: YearFromTime_def)
next
  case True
  with assms have d: "DayWithinYear l < DayWithinYear r"
    by (simp add: DayWithinYear_def)
  with MonthFromTime_mono [OF True] have "MonthFromTime l \<le> MonthFromTime r" by simp
  with True d show ?thesis
    by (auto simp: DateFromTime_def)
qed

lemma time_fields_shift:
  "HourFromTime (t + k * msPerDay) = HourFromTime t"
  "MinFromTime (t + k * msPerDay) = MinFromTime t"
  "SecFromTime (t + k * msPerDay) = SecFromTime t"
  "msFromTime (t + k * msPerDay) = msFromTime t"
proof -
  have h: "t + k * 86400000 = t + 3600000 * (24 * k)"
    and m: "t + k * 86400000 = t + 60000 * (60 * (24 * k))"
    and s: "t + k * 86400000 = t + 1000 * (60 * (1440 * k))"
    by simp_all
  have "(t + 3600000 * (24 * k)) div 3600000 = 24 * k + t div 3600000"
    by (rule div_mult_self2) simp
  then have "(t + 3600000 * (24 * k)) div 3600000 mod 24 = t div 3600000 mod 24"
    by (simp only: mod_mult_self4)
  then show "HourFromTime (t + k * msPerDay) = HourFromTime t"
    unfolding HourFromTime_def msPerDay_def msPerHour_def h .
  have "(t + 60000 * (60 * (24 * k))) div 60000 = 60 * (24 * k) + t div 60000"
    by (rule div_mult_self2) simp
  then have "(t + 60000 * (60 * (24 * k))) div 60000 mod 60 = t div 60000 mod 60"
    by (simp only: mod_mult_self4)
  then show "MinFromTime (t + k * msPerDay) = MinFromTime t"
    unfolding MinFromTime_def msPerDay_def msPerMinute_def m .
  have "(t + 1000 * (60 * (1440 * k))) div 1000 = 60 * (1440 * k) + t div 1000"
    by (rule div_mult_self2) simp
  then have "(t + 1000 * (60 * (1440 * k))) div 1000 mod 60 = t div 1000 mod 60"
    by (simp only: mod_mult_self4)
  then show "SecFromTime (t + k * msPerDay) = SecFromTime t"
    unfolding SecFromTime_def msPerDay_def s .
  have "(t + 1000 * (60 * (1440 * k))) mod 1000 = t mod 1000"
    by (rule mod_mult_self2)
  then show "msFromTime (t + k * msPerDay) = msFromTime t"
    unfolding msFromTime_def msPerDay_def s .
qed




subsection \<open>The day difference in a zone of fixed offset\<close>






subsection \<open>Dates entered as \<open>YYYY-MM-DD\<close>\<close>








subsection \<open>Zero-padded numbers and the order of strings\<close>

lemma of_char_digit_char: "(of_char (digit_char n) :: nat) = 48 + n mod 10"
proof -
  have "n mod 10 < 10" by simp
  then have "n mod 10 = 0 \<or> n mod 10 = 1 \<or> n mod 10 = 2 \<or> n mod 10 = 3 \<or> n mod 10 = 4
      \<or> n mod 10 = 5 \<or> n mod 10 = 6 \<or> n mod 10 = 7 \<or> n mod 10 = 8 \<or> n mod 10 = 9"
    by arith
  then show ?thesis
    by (elim disjE) (simp_all add: digit_char_def)
qed

lemma digit_char_less: "digit_char a < digit_char b \<longleftrightarrow> a mod 10 < b mod 10"
  by (simp add: less_char_def of_char_digit_char)

lemma digit_char_eq: "digit_char a = digit_char b \<longleftrightarrow> a mod 10 = b mod 10"
proof
  assume "digit_char a = digit_char b"
  then have "(of_char (digit_char a) :: nat) = of_char (digit_char b)" by simp
  then show "a mod 10 = b mod 10" by (simp add: of_char_digit_char)
next
  assume "a mod 10 = b mod 10"
  then show "digit_char a = digit_char b" by (simp add: digit_char_def)
qed

lemma show_nat_small: "n < 10 \<Longrightarrow> show_nat n = [digit_char n]"
  by (simp add: show_nat.simps [of n])

lemma show_nat_step: "10 \<le> n \<Longrightarrow> show_nat n = show_nat (n div 10) @ [digit_char n]"
  by (simp add: show_nat.simps [of n])

lemma show_nat_2: "n < 100 \<Longrightarrow> addLeadingZeros n 2 = [digit_char (n div 10), digit_char n]"
proof (cases "n < 10")
  case True
  then show ?thesis
    by (simp add: addLeadingZeros_def show_nat_small digit_char_def numeral_2_eq_2)
next
  case False
  assume "n < 100"
  with False have "n div 10 < 10" "10 \<le> n" by simp_all
  then show ?thesis
    by (simp add: addLeadingZeros_def show_nat_step show_nat_small)
qed

lemma show_nat_4:
  assumes "n < 10000"
  shows "addLeadingZeros n 4
    = [digit_char (n div 1000), digit_char (n div 100), digit_char (n div 10), digit_char n]"
proof -
  define a where "a = n div 10"
  define b where "b = a div 10"
  define c where "c = b div 10"
  have b: "b = n div 100" and c: "c = n div 1000"
    by (simp_all add: a_def b_def c_def div_mult2_eq [symmetric])
  have z: "digit_char 0 = CHR ''0''" by (simp add: digit_char_def)
  consider "n < 10" | "10 \<le> n" "a < 10" | "10 \<le> n" "10 \<le> a" "b < 10"
    | "10 \<le> n" "10 \<le> a" "10 \<le> b"
    by linarith
  then have "replicate (4 - length (show_nat n)) (CHR ''0'') @ show_nat n
      = [digit_char c, digit_char b, digit_char a, digit_char n]"
  proof cases
    case 1
    then have "a = 0" "b = 0" "c = 0" by (simp_all add: a_def b_def c_def)
    with 1 show ?thesis by (simp add: show_nat_small z numeral_3_eq_3)
  next
    case 2
    then have "b = 0" "c = 0" by (simp_all add: b_def c_def)
    moreover from 2 have "show_nat n = [digit_char a, digit_char n]"
      by (simp add: show_nat_step show_nat_small a_def)
    ultimately show ?thesis by (simp add: z numeral_2_eq_2)
  next
    case 3
    then have "c = 0" by (simp add: c_def)
    moreover from 3 have "show_nat n = [digit_char b, digit_char a, digit_char n]"
      using show_nat_step [of n] show_nat_step [of a] show_nat_small [of b]
      by (simp add: a_def b_def)
    ultimately show ?thesis by (simp add: z)
  next
    case 4
    from assms have "c < 10" by (simp add: c)
    with 4 have "show_nat n = [digit_char c, digit_char b, digit_char a, digit_char n]"
      using show_nat_step [of n] show_nat_step [of a] show_nat_step [of b] show_nat_small [of c]
      by (simp add: a_def b_def c_def)
    then show ?thesis by simp
  qed
  then show ?thesis
    by (simp add: addLeadingZeros_def a_def b c)
qed

lemma length_padded: "length (padded k n) = k"
  by (induction k arbitrary: n) simp_all

lemma less_append_same_length:
  fixes xs ys :: "'a::linorder list"
  shows "length xs = length ys \<Longrightarrow> xs @ us < ys @ vs \<longleftrightarrow> xs < ys \<or> (xs = ys \<and> us < vs)"
  by (induction xs ys rule: list_induct2) auto

lemma le_append_same_length:
  fixes xs ys :: "'a::linorder list"
  shows "length xs = length ys \<Longrightarrow> xs @ us \<le> ys @ vs \<longleftrightarrow> xs < ys \<or> (xs = ys \<and> us \<le> vs)"
  by (induction xs ys rule: list_induct2) auto

lemma last_digit_order:
  fixes n m :: nat
  shows "n < m \<longleftrightarrow> n div 10 < m div 10 \<or> (n div 10 = m div 10 \<and> n mod 10 < m mod 10)"
proof -
  have "n = 10 * (n div 10) + n mod 10" "m = 10 * (m div 10) + m mod 10" by simp_all
  moreover have "n mod 10 < 10" "m mod 10 < 10" by simp_all
  ultimately show ?thesis by linarith
qed

lemma last_digit_eq:
  fixes n m :: nat
  shows "n = m \<longleftrightarrow> n div 10 = m div 10 \<and> n mod 10 = m mod 10"
proof -
  have "n = 10 * (n div 10) + n mod 10" "m = 10 * (m div 10) + m mod 10" by simp_all
  then show ?thesis by (metis (no_types))
qed

lemma padded_order:
  "n < 10 ^ k \<Longrightarrow> m < 10 ^ k \<Longrightarrow>
   (padded k n < padded k m \<longleftrightarrow> n < m) \<and> (padded k n = padded k m \<longleftrightarrow> n = m)"
proof (induction k arbitrary: n m)
  case 0
  then show ?case by simp
next
  case (Suc k)
  then have "n div 10 < 10 ^ k" "m div 10 < 10 ^ k" by simp_all
  from Suc.IH [OF this]
  have less: "padded k (n div 10) < padded k (m div 10) \<longleftrightarrow> n div 10 < m div 10"
    and eq: "padded k (n div 10) = padded k (m div 10) \<longleftrightarrow> n div 10 = m div 10"
    by simp_all
  have "padded (Suc k) n < padded (Suc k) m \<longleftrightarrow> n < m"
    unfolding padded.simps
    by (subst less_append_same_length)
      (simp_all add: length_padded less eq digit_char_less last_digit_order [of n m])
  moreover have "padded (Suc k) n = padded (Suc k) m \<longleftrightarrow> n = m"
    by (simp add: eq digit_char_eq last_digit_eq [of n m])
  ultimately show ?case by simp
qed

lemma addLeadingZeros_padded:
  "n < 100 \<Longrightarrow> addLeadingZeros n 2 = padded 2 n"
  "m < 10000 \<Longrightarrow> addLeadingZeros m 4 = padded 4 m"
proof -
  have "padded 2 n = padded (Suc (Suc 0)) n"
    by (rule arg_cong [where f = "\<lambda>k. padded k n"]) simp
  then have 2: "padded 2 n = [digit_char (n div 10), digit_char n]"
    by simp
  have "padded 4 m = padded (Suc (Suc (Suc (Suc 0)))) m"
    by (rule arg_cong [where f = "\<lambda>k. padded k m"]) simp
  then have 4: "padded 4 m
      = [digit_char (m div 1000), digit_char (m div 100), digit_char (m div 10), digit_char m]"
    by (simp add: div_mult2_eq [symmetric])
  show "n < 100 \<Longrightarrow> addLeadingZeros n 2 = padded 2 n"
    unfolding 2 by (rule show_nat_2)
  show "m < 10000 \<Longrightarrow> addLeadingZeros m 4 = padded 4 m"
    unfolding 4 by (rule show_nat_4)
qed

subsection \<open>Keys in the order of time\<close>

lemma YearFromDay_ge: "DayFromYear y \<le> d \<Longrightarrow> y \<le> YearFromDay d"
proof (rule ccontr)
  assume "DayFromYear y \<le> d" "\<not> y \<le> YearFromDay d"
  then have "YearFromDay d + 1 \<le> y" by simp
  from DayFromYear_mono [OF this] YearFromDay_spec [of d] \<open>DayFromYear y \<le> d\<close>
  show False by simp
qed

lemma YearFromDay_less: "d < DayFromYear y \<Longrightarrow> YearFromDay d < y"
proof (rule ccontr)
  assume "d < DayFromYear y" "\<not> YearFromDay d < y"
  then have "y \<le> YearFromDay d" by simp
  from DayFromYear_mono [OF this] YearFromDay_spec [of d] \<open>d < DayFromYear y\<close>
  show False by simp
qed

lemma date_fields_cong:
  assumes "Day a = Day b"
  shows "YearFromTime a = YearFromTime b" "MonthFromTime a = MonthFromTime b"
    "DateFromTime a = DateFromTime b"
proof -
  from assms show y: "YearFromTime a = YearFromTime b" by (simp add: YearFromTime_def)
  with assms have w: "DayWithinYear a = DayWithinYear b" by (simp add: DayWithinYear_def)
  with y show m: "MonthFromTime a = MonthFromTime b" by (simp add: MonthFromTime_def)
  with y w show "DateFromTime a = DateFromTime b" by (simp add: DateFromTime_def)
qed

lemma monthStart_values:
  "monthStart L 0 = 0" "monthStart L 1 = 31"
  "monthStart L 2 = 59 + (if L then 1 else 0)" "monthStart L 3 = 90 + (if L then 1 else 0)"
  "monthStart L 4 = 120 + (if L then 1 else 0)" "monthStart L 5 = 151 + (if L then 1 else 0)"
  "monthStart L 6 = 181 + (if L then 1 else 0)" "monthStart L 7 = 212 + (if L then 1 else 0)"
  "monthStart L 8 = 243 + (if L then 1 else 0)" "monthStart L 9 = 273 + (if L then 1 else 0)"
  "monthStart L 10 = 304 + (if L then 1 else 0)" "monthStart L 11 = 334 + (if L then 1 else 0)"
  "monthStart L 12 = 365 + (if L then 1 else 0)"
  by (simp_all add: monthStart_def)

lemma DateFromTime_range: "1 \<le> DateFromTime t \<and> DateFromTime t \<le> 31"
proof -
  define d where "d = DayWithinYear t"
  define L where "L = InLeapYear (YearFromTime t)"
  define e :: int where "e = (if L then 1 else 0)"
  have e: "0 \<le> e" "e \<le> 1" by (simp_all add: e_def)
  from DayWithinYear_range [of t] have d: "0 \<le> d" "d < 365 + e"
    by (simp_all add: d_def L_def e_def split: if_splits)
  note v = monthStart_values [of L, folded e_def]
  have m: "MonthFromTime t =
     (if d < 31 then 0 else if d < 59 + e then 1 else if d < 90 + e then 2
      else if d < 120 + e then 3 else if d < 151 + e then 4 else if d < 181 + e then 5
      else if d < 212 + e then 6 else if d < 243 + e then 7 else if d < 273 + e then 8
      else if d < 304 + e then 9 else if d < 334 + e then 10 else 11)"
    unfolding MonthFromTime_def Let_def d_def [symmetric] L_def [symmetric] v ..
  have "DateFromTime t = d - monthStart L (MonthFromTime t) + 1"
    by (simp add: DateFromTime_def d_def L_def)
  also have "1 \<le> \<dots> \<and> \<dots> \<le> 31"
    unfolding m using d e by (simp add: v split: if_splits)
  finally show ?thesis .
qed

text \<open>The key of a day in a year from 1 to 9999, and the key of an hour of it.\<close>

lemma ymd_padded:
  assumes "1 \<le> YearFromTime l" and "YearFromTime l \<le> 9999"
  shows "concat (map (format_token l) [yyyy, Lit ''-'', MM, Lit ''-'', dd])
    = padded 4 (nat (YearFromTime l)) @ ''-'' @ padded 2 (nat (MonthFromTime l + 1)) @ ''-''
      @ padded 2 (nat (DateFromTime l))"
proof -
  from assms have "nat (YearFromTime l) < 10000" by simp
  moreover from MonthFromTime_range [of l] have "nat (MonthFromTime l + 1) < 100" by linarith
  moreover from DateFromTime_range [of l] have "nat (DateFromTime l) < 100" by linarith
  ultimately show ?thesis
    using assms(1) by (simp add: format_token_def addLeadingZeros_padded)
qed

lemma ymd_less:
  assumes "Day l < Day r" and "1 \<le> YearFromTime l" and "YearFromTime r \<le> 9999"
  shows "concat (map (format_token l) [yyyy, Lit ''-'', MM, Lit ''-'', dd])
    < concat (map (format_token r) [yyyy, Lit ''-'', MM, Lit ''-'', dd])"
proof -
  from assms(1) have "YearFromTime l \<le> YearFromTime r"
    using YearFromDay_mono [of "Day l" "Day r"] by (simp add: YearFromTime_def)
  with assms(2,3) have yl: "1 \<le> YearFromTime l" "YearFromTime l \<le> 9999"
    and yr: "1 \<le> YearFromTime r" "YearFromTime r \<le> 9999"
    by simp_all
  have y: "nat (YearFromTime l) < 10 ^ 4" "nat (YearFromTime r) < 10 ^ 4"
    using yl yr by simp_all
  have m: "nat (MonthFromTime l + 1) < 10 ^ 2" "nat (MonthFromTime r + 1) < 10 ^ 2"
    using MonthFromTime_range [of l] MonthFromTime_range [of r] by (simp; linarith)+
  have d: "nat (DateFromTime l) < 10 ^ 2" "nat (DateFromTime r) < 10 ^ 2"
    using DateFromTime_range [of l] DateFromTime_range [of r] by (simp; linarith)+
  note o = padded_order [OF y] padded_order [OF m] padded_order [OF d]
  from date_fields_less [OF assms(1)] yl yr MonthFromTime_range [of l] MonthFromTime_range [of r]
    DateFromTime_range [of l] DateFromTime_range [of r]
  have "nat (YearFromTime l) < nat (YearFromTime r)
    \<or> (nat (YearFromTime l) = nat (YearFromTime r)
        \<and> (nat (MonthFromTime l + 1) < nat (MonthFromTime r + 1)
            \<or> (nat (MonthFromTime l + 1) = nat (MonthFromTime r + 1)
                \<and> nat (DateFromTime l) < nat (DateFromTime r))))"
    by (elim disjE conjE) simp_all
  then show ?thesis
    unfolding ymd_padded [OF yl] ymd_padded [OF yr]
    by (simp add: less_append_same_length length_padded o)
qed

lemma timeKeyOf_fixedZone:
  assumes "fixedZone pf z" and "timestamp d = Some t" and "timeKeyOf pf mode d = Inr k"
  shows "k = localKey mode (LocalTime pf t)"
proof -
  let ?l = "LocalTime pf t"
  note lu = fixedZone_LocalTime_UTC [OF assms(1)]
  show ?thesis
  proof (cases mode)
    case Weekly
    with assms(2,3) obtain u where u: "startOfWeek pf (Some t) = Some u"
      by (cases "startOfWeek pf (Some t)") (auto simp: timeKeyOf_def format_def)
    from startOfWeek_Some [OF fixedZone_keepsLocalDay [OF assms(1)] u]
    have "LocalTime pf u = bucketStart Weekly ?l"
      by (simp add: startOfSundayWeek_def Let_def lu bucketStart_def MakeDate_def WeekDay_def)
    with assms(2,3) u Weekly show ?thesis
      by (simp add: timeKeyOf_def format_def localKey_def)
  next
    case Daily
    with assms(2,3) obtain u where u: "startOfDay pf (Some t) = Some u"
      by (cases "startOfDay pf (Some t)") (auto simp: timeKeyOf_def format_def)
    then have "LocalTime pf u = bucketStart Daily ?l"
      by (auto simp: startOfDay_def setHours_0_def Let_def TimeClip_def lu bucketStart_def
          MakeDate_def MakeTime_def split: if_splits)
    with assms(2,3) u Daily show ?thesis
      by (simp add: timeKeyOf_def format_def localKey_def)
  next
    case Hourly
    with assms(2,3) obtain u where u: "startOfHour pf (Some t) = Some u"
      by (cases "startOfHour pf (Some t)") (auto simp: timeKeyOf_def format_def)
    then have "LocalTime pf u = bucketStart Hourly ?l"
      by (auto simp: startOfHour_def setMinutes_0_def Let_def TimeClip_def lu bucketStart_def
          MakeDate_def MakeTime_def split: if_splits)
    with assms(2,3) u Hourly show ?thesis
      by (simp add: timeKeyOf_def format_def localKey_def)
  qed
qed

lemma Day_mono:
  assumes "l \<le> r"
  shows "Day l \<le> Day r"
  unfolding Day_def msPerDay_def using assms by (rule zdiv_mono1) simp

lemma weekStart_mono:
  fixes n m :: int
  assumes "n \<le> m"
  shows "n - (n + 4) mod 7 \<le> m - (m + 4) mod 7"
proof -
  have "n - (n + 4) mod 7 = 7 * ((n + 4) div 7) - 4" "m - (m + 4) mod 7 = 7 * ((m + 4) div 7) - 4"
    by (simp_all add: minus_mod_eq_mult_div algebra_simps)
  moreover from assms have "(n + 4) div 7 \<le> (m + 4) div 7"
    by (intro zdiv_mono1) simp_all
  ultimately show ?thesis by simp
qed

lemma Day_bucketStart:
  "Day (bucketStart Weekly l) = Day l - (Day l + 4) mod 7"
  "Day (bucketStart Daily l) = Day l"
  "Day (bucketStart Hourly l) = Day l"
proof -
  show "Day (bucketStart Weekly l) = Day l - (Day l + 4) mod 7"
    by (simp add: bucketStart_def WeekDay_def Day_def msPerDay_def)
  show "Day (bucketStart Daily l) = Day l"
    by (simp add: bucketStart_def Day_def msPerDay_def)
  have "0 \<le> HourFromTime l" "HourFromTime l \<le> 23"
    by (simp_all add: HourFromTime_def)
  then have "0 \<le> HourFromTime l * msPerHour" "HourFromTime l * msPerHour < msPerDay"
    by (simp_all add: msPerHour_def msPerDay_def)
  then have "Day (MakeDate (Day l) (HourFromTime l * msPerHour)) = Day l"
    by (rule Day_MakeDate)
  then show "Day (bucketStart Hourly l) = Day l"
    by (simp add: bucketStart_def MakeDate_def)
qed

lemma Hour_bucketStart: "HourFromTime (bucketStart Hourly l) = HourFromTime l"
proof -
  define h where "h = HourFromTime l"
  have "0 \<le> h" "h < 24"
    by (simp_all add: h_def HourFromTime_def)
  then have "HourFromTime (h * msPerHour) = h"
    by (simp add: HourFromTime_def msPerHour_def)
  then have "HourFromTime (HourFromTime l * msPerHour) = HourFromTime l"
    by (simp only: h_def)
  moreover have "bucketStart Hourly l = HourFromTime l * msPerHour + Day l * msPerDay"
    by (simp add: bucketStart_def)
  ultimately show ?thesis
    by (simp only: time_fields_shift)
qed

lemma hours_of_day:
  "l div 3600000 = 24 * Day l + HourFromTime l"
proof -
  have "(l div 3600000) div 24 = l div (3600000 * 24)"
    by (rule zdiv_zmult2_eq [symmetric]) simp
  then have "Day l = (l div 3600000) div 24"
    by (simp add: Day_def msPerDay_def)
  then show ?thesis
    by (simp add: HourFromTime_def msPerHour_def)
qed

lemma Hour_mono_within_day:
  assumes "l \<le> r" and "Day l = Day r"
  shows "HourFromTime l \<le> HourFromTime r"
proof -
  have "l div 3600000 \<le> r div 3600000"
    using assms(1) by (rule zdiv_mono1) simp
  with assms(2) show ?thesis
    by (simp add: hours_of_day)
qed

lemma length_ymd:
  assumes "1 \<le> YearFromTime l" and "YearFromTime l \<le> 9999"
  shows "length (concat (map (format_token l) [yyyy, Lit ''-'', MM, Lit ''-'', dd])) = 10"
  unfolding ymd_padded [OF assms] by (simp add: length_padded)

lemma ymd_mono:
  assumes "Day l \<le> Day r" and "1 \<le> YearFromTime l" and "YearFromTime r \<le> 9999"
  shows "concat (map (format_token l) [yyyy, Lit ''-'', MM, Lit ''-'', dd])
    \<le> concat (map (format_token r) [yyyy, Lit ''-'', MM, Lit ''-'', dd])"
proof (cases "Day l = Day r")
  case True
  from date_fields_cong [OF True] show ?thesis by (simp add: format_token_def)
next
  case False
  with assms(1) have "Day l < Day r" by simp
  from ymd_less [OF this assms(2,3)] show ?thesis by simp
qed

lemma localKey_mono:
  assumes "l \<le> r" and "DayFromYear 1 + 6 \<le> Day l" and "Day r < DayFromYear 10000"
  shows "localKey mode l \<le> localKey mode r"
proof -
  let ?a = "bucketStart mode l" and ?b = "bucketStart mode r"
  from assms(1) have lr: "Day l \<le> Day r" by (rule Day_mono)
  have w: "0 \<le> (Day l + 4) mod 7" "(Day l + 4) mod 7 \<le> 6" "0 \<le> (Day r + 4) mod 7"
    by simp_all
  have ab: "Day ?a \<le> Day ?b"
    using lr weekStart_mono [OF lr] by (cases mode) (simp_all add: Day_bucketStart)
  have "DayFromYear 1 \<le> Day ?a"
    using assms(2) w by (cases mode) (simp_all add: Day_bucketStart)
  then have ya: "1 \<le> YearFromTime ?a"
    unfolding YearFromTime_def by (rule YearFromDay_ge)
  have "Day ?b < DayFromYear 10000"
    using assms(3) w by (cases mode) (simp_all add: Day_bucketStart)
  then have "YearFromTime ?b < 10000"
    unfolding YearFromTime_def by (rule YearFromDay_less)
  then have yb: "YearFromTime ?b \<le> 9999" by simp
  from ab have yab: "YearFromTime ?a \<le> YearFromTime ?b"
    unfolding YearFromTime_def by (rule YearFromDay_mono)
  note ymd = ymd_mono [OF ab ya yb]
  show ?thesis
  proof (cases "mode = Hourly")
    case False
    with ymd show ?thesis by (cases mode) (simp_all add: localKey_def)
  next
    case True
    define A where "A = concat (map (format_token ?a) [yyyy, Lit ''-'', MM, Lit ''-'', dd])"
    define B where "B = concat (map (format_token ?b) [yyyy, Lit ''-'', MM, Lit ''-'', dd])"
    define S where "S = '' '' @ addLeadingZeros (nat (HourFromTime l)) 2 @ '':00''"
    define T where "T = '' '' @ addLeadingZeros (nat (HourFromTime r)) 2 @ '':00''"
    have len: "length A = length B"
      unfolding A_def B_def using length_ymd [of ?a] length_ymd [of ?b] ya yb yab by simp
    have kl: "localKey mode l = A @ S" and kr: "localKey mode r = B @ T"
      unfolding A_def B_def S_def T_def True
      by (simp_all add: localKey_def format_token_def Hour_bucketStart)
    show ?thesis
    proof (cases "Day l = Day r")
      case False
      with lr True have "Day ?a < Day ?b" by (simp add: Day_bucketStart)
      from ymd_less [OF this ya yb] have "A < B" by (simp only: A_def B_def)
      with len show ?thesis
        unfolding kl kr by (simp only: le_append_same_length) simp
    next
      case same: True
      from Hour_mono_within_day [OF assms(1) same]
      have h: "nat (HourFromTime l) \<le> nat (HourFromTime r)" by simp
      have "HourFromTime l < 24" "HourFromTime r < 24"
        by (simp_all add: HourFromTime_def)
      then have hl: "nat (HourFromTime l) < 10 ^ 2" and hr: "nat (HourFromTime r) < 10 ^ 2"
        by simp_all
      from padded_order [OF hl hr] h
      have "padded 2 (nat (HourFromTime l)) \<le> padded 2 (nat (HourFromTime r))"
        by (auto simp: le_less)
      moreover from hl hr have "addLeadingZeros (nat (HourFromTime l)) 2 = padded 2 (nat (HourFromTime l))"
        "addLeadingZeros (nat (HourFromTime r)) 2 = padded 2 (nat (HourFromTime r))"
        by (simp_all add: addLeadingZeros_padded)
      ultimately have "S \<le> T"
        unfolding S_def T_def
        using le_append_same_length [of "padded 2 (nat (HourFromTime l))"
            "padded 2 (nat (HourFromTime r))" "'':00''" "'':00''"]
        by (auto simp: length_padded le_less)
      moreover from same True have "Day ?a = Day ?b" by (simp add: Day_bucketStart)
      from date_fields_cong [OF this] have "A = B"
        by (simp add: A_def B_def format_token_def)
      ultimately show ?thesis
        unfolding kl kr using le_append_same_length [of B B S T] by simp
    qed
  qed
qed

text \<open>
  In a zone of fixed offset and for years from 1 to 9999, the keys of two readings are in
  the order of their timestamps: the order of the output is the order of time.
\<close>

lemma timeKey_chronological:
  assumes "fixedZone pf z"
    and "timestamp d1 = Some t1" and "timestamp d2 = Some t2" and "t1 \<le> t2"
    and "timeKeyOf pf mode d1 = Inr k1" and "timeKeyOf pf mode d2 = Inr k2"
    and "DayFromYear 1 + 6 \<le> Day (LocalTime pf t1)"
    and "Day (LocalTime pf t2) < DayFromYear 10000"
  shows "k1 \<le> k2"
proof -
  from assms(1,4) have "LocalTime pf t1 \<le> LocalTime pf t2"
    by (simp add: fixedZone_def LocalTime_def)
  from localKey_mono [OF this assms(7,8)]
    timeKeyOf_fixedZone [OF assms(1,2,5)] timeKeyOf_fixedZone [OF assms(1,3,6)]
  show ?thesis by simp
qed

subsection \<open>Claims\<close>



text \<open>
  C5. With no location selected the aggregation returns what it returns when every
  distinct location of the data set is selected.
\<close>

theorem C5_empty_filter_selects_all:
  "filteredAndAggregatedData pf data startDate endDate []
   = filteredAndAggregatedData pf data startDate endDate (locations data)"
  by (simp add: filteredAndAggregatedData_def dateFiltered_no_selection [symmetric])

text \<open>
  C4, as amended. A missing start date, a missing end date, and a non-empty filter that
  names only locations absent from the data each give the empty result and no exception.
  An inverted range does not by itself: the two ends are put in order, so the readings
  kept are those of the range in order, and the result is empty when no reading lies
  between the two dates.
\<close>

theorem C4_degenerate_parameters:
  "filteredAndAggregatedData pf data [] endDate sel = Inr []
   \<and> filteredAndAggregatedData pf data startDate [] sel = Inr []
   \<and> (sel \<noteq> [] \<and> set sel \<inter> location ` set data = {} \<longrightarrow>
        filteredAndAggregatedData pf data startDate endDate sel = Inr [])
   \<and> dateFiltered data (Date_parse pf startDate) (Date_parse pf endDate) sel
       = dateFiltered data (Date_parse pf endDate) (Date_parse pf startDate) sel
   \<and> ((\<forall>d \<in> set data.
          \<not> isWithinInterval (timestamp d) (Date_parse pf startDate) (Date_parse pf endDate)) \<longrightarrow>
        filteredAndAggregatedData pf data startDate endDate sel = Inr [])"
proof (intro conjI impI)
  show "filteredAndAggregatedData pf data [] endDate sel = Inr []"
    by (simp add: filteredAndAggregatedData_def)
  show "filteredAndAggregatedData pf data startDate [] sel = Inr []"
    by (simp add: filteredAndAggregatedData_def)
  show "filteredAndAggregatedData pf data startDate endDate sel = Inr []"
    if "sel \<noteq> [] \<and> set sel \<inter> location ` set data = {}"
    using that by (intro nothing_kept_nothing_returned dateFiltered_absent) simp_all
  show "dateFiltered data (Date_parse pf startDate) (Date_parse pf endDate) sel
       = dateFiltered data (Date_parse pf endDate) (Date_parse pf startDate) sel"
    by (rule dateFiltered_swap)
  show "filteredAndAggregatedData pf data startDate endDate sel = Inr []"
    if "\<forall>d \<in> set data.
          \<not> isWithinInterval (timestamp d) (Date_parse pf startDate) (Date_parse pf endDate)"
    using that by (intro nothing_kept_nothing_returned dateFiltered_outside)
qed


theorem C4_degenerate_parameters_witness:
  "filteredAndAggregatedData (browser 0)
     [reading ''A'' (Date_parse (browser 0) ''2024-01-05T12:00'') (Fin 10)]
     ''2024-01-01'' ''2024-01-10'' [''B''] = Inr []
   \<and> filteredAndAggregatedData (browser 0)
     [reading ''A'' (Date_parse (browser 0) ''2024-01-05T12:00'') (Fin 10)]
     ''2024-01-10'' ''2024-01-07'' [''A''] = Inr []"
proof
  let ?data = "[reading ''A'' (Date_parse (browser 0) ''2024-01-05T12:00'') (Fin 10)]"
  have absent: "[''B''] \<noteq> [] \<and> set [''B''] \<inter> location ` set ?data = {}"
    by (simp add: reading_def)
  have "isWithinInterval (timestamp (reading ''A'' (Date_parse (browser 0) ''2024-01-05T12:00'') (Fin 10)))
      (Date_parse (browser 0) ''2024-01-10'') (Date_parse (browser 0) ''2024-01-07'') = False"
    by code_simp
  then have outside: "\<forall>d \<in> set ?data.
      \<not> isWithinInterval (timestamp d) (Date_parse (browser 0) ''2024-01-10'')
          (Date_parse (browser 0) ''2024-01-07'')"
    by simp
  show "filteredAndAggregatedData (browser 0) ?data ''2024-01-01'' ''2024-01-10'' [''B''] = Inr []"
    by (rule C4_degenerate_parameters [of "browser 0" ?data "''2024-01-10''" "[''B'']" "''2024-01-01''",
          THEN conjunct2, THEN conjunct2, THEN conjunct1, THEN mp, OF absent])
  show "filteredAndAggregatedData (browser 0) ?data ''2024-01-10'' ''2024-01-07'' [''A''] = Inr []"
    by (rule C4_degenerate_parameters [of "browser 0" ?data "''2024-01-07''" "[''A'']" "''2024-01-10''",
          THEN conjunct2, THEN conjunct2, THEN conjunct2, THEN conjunct2, THEN mp, OF outside])
qed

theorem C4_inverted_range_counterexample:
  "filteredAndAggregatedData (browser 0)
     [reading ''A'' (Date_parse (browser 0) ''2024-01-05T12:00'') (Fin 10)]
     ''2024-01-10'' ''2024-01-01'' []
   = Inr [\<lparr>date = ''2024-01-05 12:00'', displayDate = ''01/05 12:00'',
           metrics = [(''A_moisture'', Fin 10), (''A_ec'', Fin 1), (''A_temperature'', Fin 2)]\<rparr>]"
  by code_simp

text \<open>
  C1. In the end-to-end scenario (readings at 01:00 and 02:00 local time of 2024-01-01 at
  A, range 2024-01-01 to 2024-01-01, filter A) the aggregation returns no bucket, in a
  UTC zone and in Korea: both ends of the interval are UTC midnight of 2024-01-01. The
  scenario is the state an upload of the two rows itself sets.
\<close>

theorem C1_end_date_readings_dropped:
  "filteredAndAggregatedData (browser 0) (e2e_readings (browser 0))
      ''2024-01-01'' ''2024-01-01'' [''A''] = Inr []
   \<and> filteredAndAggregatedData (browser 540) (e2e_readings (browser 540))
      ''2024-01-01'' ''2024-01-01'' [''A''] = Inr []
   \<and> handleFileUpload (browser 540) e2e_rows initialState
      = \<lparr>s_data = e2e_readings (browser 540), s_startDate = ''2024-01-01'',
         s_endDate = ''2024-01-01'', s_selectedLocations = [''A'']\<rparr>"
  by code_simp



subsection \<open>Retained rows\<close>










text \<open>
  C10, the claim as stated fails: a CSV cell \<open>Infinity\<close> is a number for \<open>parseFloat\<close>,
  and the value emitted for its group is infinite.
\<close>

theorem C10_infinite_value_counterexample:
  "parsedData (browser 0) [row ''A'' ''2024-01-01T01:00'' ''Infinity'']
     = [reading ''A'' (Some 1704070800000) PInf]
   \<and> filteredAndAggregatedData (browser 0) [reading ''A'' (Some 1704070800000) PInf]
        ''2024-01-01'' ''2024-01-02'' [''A'']
     = Inr [\<lparr>date = ''2024-01-01 01:00'', displayDate = ''01/01 01:00'',
             metrics = [(''A_moisture'', PInf), (''A_ec'', Fin 1), (''A_temperature'', Fin 2)]\<rparr>]
   \<and> \<not> isFinite PInf"
  by code_simp

text \<open>
  C10, as amended. Every group the grouping loop builds has a count of at least 1, so the
  quotient of a sum by the count is never a division by zero. Every value emitted in a
  bucket is such a quotient, rounded, of a group of that bucket, and it is finite whenever
  the accumulated sum is finite.
\<close>

theorem C10_group_counts_positive:
  "(groupAll pf mode ds [] = Inr gs \<longrightarrow> (k, locs) \<in> set gs \<longrightarrow> (loc, g) \<in> set locs \<longrightarrow>
      1 \<le> count g)
   \<and> (filteredAndAggregatedData pf data startDate endDate sel = Inr res \<longrightarrow> b \<in> set res \<longrightarrow>
      (key, v) \<in> set (metrics b) \<longrightarrow>
      (\<exists>gs' locs' loc' g'.
         groupAll pf
           (aggregationModeOf (differenceInDays pf (Date_parse pf endDate) (Date_parse pf startDate)))
           (dateFiltered data (Date_parse pf startDate) (Date_parse pf endDate) sel) [] = Inr gs'
         \<and> (date b, locs') \<in> set gs' \<and> (loc', g') \<in> set locs' \<and> 1 \<le> count g'
         \<and> ((key = loc' @ ''_moisture''
               \<and> v = Number_toFixed2 (num_div (sum_moisture g') (count g'))
               \<and> (isFinite (sum_moisture g') \<longrightarrow> isFinite v))
             \<or> (key = loc' @ ''_ec''
               \<and> v = Number_toFixed2 (num_div (sum_ec g') (count g'))
               \<and> (isFinite (sum_ec g') \<longrightarrow> isFinite v))
             \<or> (key = loc' @ ''_temperature''
               \<and> v = Number_toFixed2 (num_div (sum_temperature g') (count g'))
               \<and> (isFinite (sum_temperature g') \<longrightarrow> isFinite v)))))"
proof (intro conjI impI)
  assume "groupAll pf mode ds [] = Inr gs" "(k, locs) \<in> set gs" "(loc, g) \<in> set locs"
  then show "1 \<le> count g"
    using groupAll_counts [of pf mode ds "[]" gs k locs loc g] by simp
next
  let ?mode = "aggregationModeOf
    (differenceInDays pf (Date_parse pf endDate) (Date_parse pf startDate))"
  let ?kept = "dateFiltered data (Date_parse pf startDate) (Date_parse pf endDate) sel"
  assume run: "filteredAndAggregatedData pf data startDate endDate sel = Inr res"
    and b: "b \<in> set res" and kv: "(key, v) \<in> set (metrics b)"
  from b have "res \<noteq> []" by auto
  from nonempty_result_parameters [OF run this]
  have "data \<noteq> []" "startDate \<noteq> []" "endDate \<noteq> []" by simp_all
  from filteredAndAggregatedData_run [OF run this] obtain gs' bs where
    g: "groupAll pf ?mode ?kept [] = Inr gs'" and f: "flatten pf ?mode gs' = Inr bs"
    and r: "set res = set bs"
    by blast
  from b r have "b \<in> set bs" by simp
  from flatten_metrics [OF f this] obtain locs' where
    locs': "(date b, locs') \<in> set gs'" and m: "metrics b = fold addMetrics locs' []"
    by blast
  from kv m have "(key, v) \<in> set (fold addMetrics locs' [])" by simp
  from addMetrics_entries [OF this] obtain loc' g' where
    lg: "(loc', g') \<in> set locs'"
    and v: "(key = loc' @ ''_moisture'' \<and> v = Number_toFixed2 (num_div (sum_moisture g') (count g')))
        \<or> (key = loc' @ ''_ec'' \<and> v = Number_toFixed2 (num_div (sum_ec g') (count g')))
        \<or> (key = loc' @ ''_temperature''
            \<and> v = Number_toFixed2 (num_div (sum_temperature g') (count g')))"
    by auto
  have c: "1 \<le> count g'"
    using groupAll_counts [of pf ?mode ?kept "[]" gs' "date b" locs' loc' g'] g locs' lg by simp
  from v c have "(key = loc' @ ''_moisture''
               \<and> v = Number_toFixed2 (num_div (sum_moisture g') (count g'))
               \<and> (isFinite (sum_moisture g') \<longrightarrow> isFinite v))
             \<or> (key = loc' @ ''_ec''
               \<and> v = Number_toFixed2 (num_div (sum_ec g') (count g'))
               \<and> (isFinite (sum_ec g') \<longrightarrow> isFinite v))
             \<or> (key = loc' @ ''_temperature''
               \<and> v = Number_toFixed2 (num_div (sum_temperature g') (count g'))
               \<and> (isFinite (sum_temperature g') \<longrightarrow> isFinite v))"
    using isFinite_emitted by blast
  with g locs' lg c show "\<exists>gs' locs' loc' g'.
         groupAll pf ?mode ?kept [] = Inr gs'
         \<and> (date b, locs') \<in> set gs' \<and> (loc', g') \<in> set locs' \<and> 1 \<le> count g'
         \<and> ((key = loc' @ ''_moisture''
               \<and> v = Number_toFixed2 (num_div (sum_moisture g') (count g'))
               \<and> (isFinite (sum_moisture g') \<longrightarrow> isFinite v))
             \<or> (key = loc' @ ''_ec''
               \<and> v = Number_toFixed2 (num_div (sum_ec g') (count g'))
               \<and> (isFinite (sum_ec g') \<longrightarrow> isFinite v))
             \<or> (key = loc' @ ''_temperature''
               \<and> v = Number_toFixed2 (num_div (sum_temperature g') (count g'))
               \<and> (isFinite (sum_temperature g') \<longrightarrow> isFinite v)))"
    by blast
qed

theorem C10_group_counts_positive_witness:
  "groupAll (browser 0) Hourly [reading ''A'' (Some 1704070800000) (Fin 10)] []
     = Inr [(''2024-01-01 01:00'',
             [(''A'', \<lparr>sum_moisture = Fin 10, sum_ec = Fin 1, sum_temperature = Fin 2, count = 1\<rparr>)])]
   \<and> 1 \<le> count \<lparr>sum_moisture = Fin 10, sum_ec = Fin 1, sum_temperature = Fin 2, count = 1\<rparr>
   \<and> filteredAndAggregatedData (browser 0) [reading ''A'' (Some 1704070800000) (Fin 10)]
        ''2024-01-01'' ''2024-01-02'' [''A'']
     = Inr [\<lparr>date = ''2024-01-01 01:00'', displayDate = ''01/01 01:00'',
             metrics = [(''A_moisture'', Fin 10), (''A_ec'', Fin 1), (''A_temperature'', Fin 2)]\<rparr>]
   \<and> (\<exists>gs' locs' loc' g'.
         groupAll (browser 0)
           (aggregationModeOf (differenceInDays (browser 0) (Date_parse (browser 0) ''2024-01-02'')
              (Date_parse (browser 0) ''2024-01-01'')))
           (dateFiltered [reading ''A'' (Some 1704070800000) (Fin 10)]
              (Date_parse (browser 0) ''2024-01-01'') (Date_parse (browser 0) ''2024-01-02'') [''A''])
           [] = Inr gs'
         \<and> (''2024-01-01 01:00'', locs') \<in> set gs' \<and> (loc', g') \<in> set locs' \<and> 1 \<le> count g'
         \<and> isFinite (Fin 10))"
proof -
  let ?d = "reading ''A'' (Some 1704070800000) (Fin 10)"
  let ?g = "\<lparr>sum_moisture = Fin 10, sum_ec = Fin 1, sum_temperature = Fin 2, count = 1\<rparr>"
  let ?b = "\<lparr>date = ''2024-01-01 01:00'', displayDate = ''01/01 01:00'',
             metrics = [(''A_moisture'', Fin 10), (''A_ec'', Fin 1), (''A_temperature'', Fin 2)]\<rparr>"
  have loop: "groupAll (browser 0) Hourly [?d] [] = Inr [(''2024-01-01 01:00'', [(''A'', ?g)])]"
    by code_simp
  have 1: "(''2024-01-01 01:00'', [(''A'', ?g)]) \<in> set [(''2024-01-01 01:00'', [(''A'', ?g)])]"
    and 2: "(''A'', ?g) \<in> set [(''A'', ?g)]"
    by simp_all
  have count: "1 \<le> count ?g"
    by (rule C10_group_counts_positive [THEN conjunct1, THEN mp, THEN mp, THEN mp, OF loop 1 2])
  have run: "filteredAndAggregatedData (browser 0) [?d] ''2024-01-01'' ''2024-01-02'' [''A'']
      = Inr [?b]"
    by code_simp
  have 3: "?b \<in> set [?b]" and 4: "(''A_moisture'', Fin 10) \<in> set (metrics ?b)"
    by simp_all
  from C10_group_counts_positive [THEN conjunct2, THEN mp, THEN mp, THEN mp, OF run 3 4]
  have "\<exists>gs' locs' loc' g'.
         groupAll (browser 0)
           (aggregationModeOf (differenceInDays (browser 0) (Date_parse (browser 0) ''2024-01-02'')
              (Date_parse (browser 0) ''2024-01-01'')))
           (dateFiltered [?d]
              (Date_parse (browser 0) ''2024-01-01'') (Date_parse (browser 0) ''2024-01-02'') [''A''])
           [] = Inr gs'
         \<and> (''2024-01-01 01:00'', locs') \<in> set gs' \<and> (loc', g') \<in> set locs' \<and> 1 \<le> count g'
         \<and> isFinite (Fin 10)"
    by (auto simp: isFinite_def)
  with loop count run show ?thesis by (intro conjI)
qed



end
